theory Spec2Isabelle
  imports Main "HOL-Library.AList"
begin

section \<open>The store command of libcodechecker/libhandlers/store.py\<close>

text \<open>
  The command collects report files (\<open>*.plist\<close>) and \<open>metadata.json\<close> files from its
  inputs, hashes the source files the reports mention, asks the server which hashes it
  lacks, writes a ZIP with the reports, the missing sources and \<open>content_hashes.json\<close>,
  and sends it with one \<open>massStoreRun\<close> call. The model below follows the source function
  by function. What lies outside the file (the disk, the plist parser, SHA-256, the
  server, the archive and compression formats) is a field of the record \<open>env\<close>.
\<close>

subsection \<open>Strings and paths\<close>

type_synonym path = string
type_synonym hash = string

definition startswith :: "string \<Rightarrow> string \<Rightarrow> bool" where
  "startswith pre s = (take (length pre) s = pre)"

definition endswith :: "string \<Rightarrow> string \<Rightarrow> bool" where
  "endswith suf s = (length suf \<le> length s \<and> drop (length s - length suf) s = suf)"

text \<open>\<open>s.lstrip('/')\<close>.\<close>

definition lstrip_slash :: "string \<Rightarrow> string" where
  "lstrip_slash s = dropWhile (\<lambda>c. c = CHR ''/'') s"

text \<open>\<open>os.path.join(a, b)\<close> of posixpath: an absolute second component replaces the first.\<close>

definition path_join :: "path \<Rightarrow> path \<Rightarrow> path" where
  "path_join a b =
     (if startswith ''/'' b then b
      else if a = [] \<or> endswith ''/'' a then a @ b
      else a @ ''/'' @ b)"

text \<open>\<open>sep.join(xs)\<close>.\<close>

fun str_join :: "string \<Rightarrow> string list \<Rightarrow> string" where
  "str_join sep [] = []"
| "str_join sep [x] = x"
| "str_join sep (x # y # ys) = x @ sep @ str_join sep (y # ys)"





subsection \<open>The environment\<close>

text \<open>
  A disk entry is a regular file with its bytes, or a directory with the names of its
  immediate non-directory children, which is the third component of the first triple of
  \<open>os.walk\<close>.
\<close>

datatype node = File string | Dir "string list"

text \<open>
  An archive member: \<open>zipf.write(src, arcname)\<close> stores the file \<open>src\<close> under \<open>arcname\<close>,
  \<open>zipf.writestr(arcname, json.dumps(d))\<close> stores the serialised dictionary \<open>d\<close>.
\<close>

datatype zip_member =
    FromFile path string
  | FromString string "(path \<times> hash) list"

datatype error =
    OSError_ENOENT path
  | ZlibUnavailable
  | RpcError
  | EncodeError
  | MetadataError
  | TypeError

text \<open>
  What the source gets from one \<open>metadata.json\<close>. \<open>LoadFails\<close>: \<open>open\<close>, \<open>json.load\<close>, the
  test \<open>'name' in metajson\<close> or the lookup \<open>metajson['name']\<close> raises (the file is
  unreadable, is not JSON, or is not a JSON object). \<open>NoName\<close>: the test is false.
  \<open>Name v\<close>: the value under the key. A value is a string, or something else, of which
  only the truth value in a Python \<open>if\<close> matters.
\<close>

datatype json_value = JString string | JOther bool

datatype metadata = LoadFails | NoName | Name json_value

record env =
  disk :: "path \<Rightarrow> node option"
  abspath :: "path \<Rightarrow> path"
  parse_plist :: "path \<Rightarrow> path list option"
  sha256_hexdigest :: "string \<Rightarrow> hash"
  load_metadata :: "path \<Rightarrow> metadata"
  check_zlib :: bool
  product_id :: "string \<Rightarrow> nat"
  check_permission :: "nat \<Rightarrow> bool"
  getMissingContentHashes :: "hash list \<Rightarrow> hash list option"
  massStoreRun :: "string \<Rightarrow> string option \<Rightarrow> string \<Rightarrow> string \<Rightarrow> bool \<Rightarrow> bool"
  mkstemp :: path
  zip_bytes :: "zip_member list \<Rightarrow> string"
  zlib_compress :: "string \<Rightarrow> string"
  b64encode :: "string \<Rightarrow> string option"
  context_version :: string

text \<open>
  \<open>parse_plist\<close> gives the first component of \<open>plist_parser.parse_plist\<close>, \<open>None\<close> when the
  parser raises. \<open>load_metadata\<close> is the reading of the metadata file at a path.
  \<open>getMissingContentHashes\<close> and \<open>b64encode\<close> give
  \<open>None\<close> when the call (for the latter: reading the file back and encoding it) raises;
  \<open>massStoreRun\<close> is \<open>False\<close> when the call raises. \<open>mkstemp\<close> is the name of the temporary
  file. \<open>zip_bytes\<close> is the archive format: the bytes of an archive with the given
  members.
\<close>

definition exists :: "env \<Rightarrow> path \<Rightarrow> bool" where
  "exists E p = (disk E p \<noteq> None)"

definition isfile :: "env \<Rightarrow> path \<Rightarrow> bool" where
  "isfile E p = (case disk E p of Some (File c) \<Rightarrow> True | _ \<Rightarrow> False)"

definition isdir :: "env \<Rightarrow> path \<Rightarrow> bool" where
  "isdir E p = (case disk E p of Some (Dir ns) \<Rightarrow> True | _ \<Rightarrow> False)"

text \<open>\<open>open(f).read()\<close>; the source calls it after \<open>os.path.isfile(f)\<close> only.\<close>

definition read_file :: "env \<Rightarrow> path \<Rightarrow> string" where
  "read_file E p = (case disk E p of Some (File c) \<Rightarrow> c | _ \<Rightarrow> [])"

text \<open>\<open>next(os.walk(p), ([], [], []))[2]\<close>.\<close>

definition walk_files :: "env \<Rightarrow> path \<Rightarrow> string list" where
  "walk_files E p = (case disk E p of Some (Dir ns) \<Rightarrow> ns | _ \<Rightarrow> [])"

subsection \<open>Observable calls\<close>

datatype log_msg =
    ParsingFailed
  | SkippingPlist path
  | NoReportToStore
  | NoSuitableName
  | NotAuthorised
  | TooBig
  | StorageFailed

datatype event =
    GetCurrentProduct string
  | CheckPermission nat
  | SetupClient
  | Mkstemp path
  | ParsePlist path
  | HashFile path
  | GetMissingContentHashesCall "hash list"
  | Compress path
  | MassStoreRunCall string "string option" string string bool
  | Remove path
  | Log log_msg

definition hashed_paths :: "event list \<Rightarrow> path list" where
  "hashed_paths es = concat (map (\<lambda>e. case e of HashFile p \<Rightarrow> [p] | _ \<Rightarrow> []) es)"

definition hash_queries :: "event list \<Rightarrow> hash list list" where
  "hash_queries es =
     concat (map (\<lambda>e. case e of GetMissingContentHashesCall hs \<Rightarrow> [hs] | _ \<Rightarrow> []) es)"

definition store_payloads :: "event list \<Rightarrow> string list" where
  "store_payloads es =
     concat (map (\<lambda>e. case e of MassStoreRunCall n t v p f \<Rightarrow> [p] | _ \<Rightarrow> []) es)"

definition store_names :: "event list \<Rightarrow> string list" where
  "store_names es =
     concat (map (\<lambda>e. case e of MassStoreRunCall n t v p f \<Rightarrow> [n] | _ \<Rightarrow> []) es)"

fun bundling_call :: "event \<Rightarrow> bool" where
  "bundling_call (Mkstemp p) = True"
| "bundling_call (ParsePlist p) = True"
| "bundling_call (HashFile p) = True"
| "bundling_call (GetMissingContentHashesCall hs) = True"
| "bundling_call (Compress p) = True"
| "bundling_call (MassStoreRunCall n t v p f) = True"
| "bundling_call e = False"

subsection \<open>\<open>__get_run_name\<close>\<close>

definition truthy :: "json_value \<Rightarrow> bool" where
  "truthy v = (case v of JString n \<Rightarrow> n \<noteq> [] | JOther b \<Rightarrow> b)"

text \<open>\<open>names.append(v)\<close> after the rest of the loop has run without raising.\<close>

definition append_name :: "json_value \<Rightarrow> error + json_value list \<Rightarrow> error + json_value list" where
  "append_name v r = (case r of Inl e \<Rightarrow> Inl e | Inr names \<Rightarrow> Inr (v # names))"

text \<open>
  The loop of \<open>__get_run_name\<close>. It is not inside a \<open>try\<close>, nor is its call in \<open>main\<close>: a
  metadata file that cannot be loaded ends the run with the exception.
\<close>

fun metadata_names :: "env \<Rightarrow> path list \<Rightarrow> error + json_value list" where
  "metadata_names E [] = Inr []"
| "metadata_names E (input_path # rest) =
     (let metafile = path_join input_path ''metadata.json'' in
      if isdir E input_path \<and> exists E metafile then
        (case load_metadata E metafile of
           LoadFails \<Rightarrow> Inl MetadataError
         | NoName \<Rightarrow> append_name (JString ''unnamed result folder'') (metadata_names E rest)
         | Name v \<Rightarrow> append_name v (metadata_names E rest))
      else metadata_names E rest)"

text \<open>\<open>', '.join(names)\<close> raises \<open>TypeError\<close> when an item is not a string.\<close>

fun join_names :: "json_value list \<Rightarrow> error + string" where
  "join_names [] = Inr []"
| "join_names [JString n] = Inr n"
| "join_names (JString n # v # vs) =
     (case join_names (v # vs) of Inl e \<Rightarrow> Inl e | Inr r \<Rightarrow> Inr (n @ '', '' @ r))"
| "join_names (JOther b # vs) = Inl TypeError"

text \<open>The source returns \<open>False\<close> in its last branch; that is \<open>None\<close> here.\<close>

definition get_run_name :: "env \<Rightarrow> path list \<Rightarrow> error + json_value option" where
  "get_run_name E input_list =
     (case metadata_names E input_list of
        Inl e \<Rightarrow> Inl e
      | Inr names \<Rightarrow>
          if length names = 1 \<and> hd names \<noteq> JString ''unnamed result folder''
          then Inr (Some (hd names))
          else if length names > 1 then
            (case join_names names of
               Inl e \<Rightarrow> Inl e
             | Inr joined \<Rightarrow> Inr (Some (JString (''multiple projects: '' @ joined))))
          else Inr None)"

subsection \<open>\<open>assemble_zip\<close>\<close>

text \<open>
  The two dictionaries are association lists updated in place by key
  (\<open>AList.update\<close>), so a key occurs once and a later assignment replaces the value.
  Iteration follows the order of first insertion; the source runs on a Python whose
  dictionaries iterate in an unspecified order, and nothing proved below depends on the
  order of the keys among themselves. \<open>zipf\<close> lists the members written to the archive,
  in the order of the calls; writing a member is taken to succeed. \<open>zip_content\<close> is
  what the file \<open>zip_file\<close> holds. \<open>calls\<close> records the calls of the collaborators
  (parser, hashing, server) and the warnings and errors logged.
\<close>

record asm =
  hash_to_file :: "(hash \<times> path) list"
  file_to_hash :: "(path \<times> hash) list"
  zipf :: "zip_member list"
  zip_content :: string
  calls :: "event list"

definition emit :: "event \<Rightarrow> asm \<Rightarrow> asm" where
  "emit e s = s\<lparr>calls := calls s @ [e]\<rparr>"

definition zip_write :: "path \<Rightarrow> string \<Rightarrow> asm \<Rightarrow> asm" where
  "zip_write src arcname s = s\<lparr>zipf := zipf s @ [FromFile src arcname]\<rparr>"

text \<open>
  The loop over \<open>files\<close> in \<open>collect_file_hashes_from_plist\<close>. Reading a path that is a
  regular file is taken to succeed.
\<close>

fun hash_files :: "env \<Rightarrow> path list \<Rightarrow> asm \<Rightarrow> bool \<times> asm" where
  "hash_files E [] s = (True, s)"
| "hash_files E (f # fs) s =
     (if \<not> isfile E f then (False, s)
      else
        let content_hash = sha256_hexdigest E (read_file E f) in
        hash_files E fs
          (emit (HashFile f)
            (s\<lparr>hash_to_file := AList.update content_hash f (hash_to_file s),
               file_to_hash := AList.update f content_hash (file_to_hash s)\<rparr>)))"

text \<open>
  When the parser raises, the handler logs and the function returns \<open>None\<close>, which the
  caller's \<open>if\<close> treats as \<open>False\<close>.
\<close>

definition collect_file_hashes_from_plist :: "env \<Rightarrow> path \<Rightarrow> asm \<Rightarrow> bool \<times> asm" where
  "collect_file_hashes_from_plist E plist_file s =
     (case parse_plist E plist_file of
        None \<Rightarrow> (False, emit (Log ParsingFailed) (emit (ParsePlist plist_file) s))
      | Some files \<Rightarrow> hash_files E files (emit (ParsePlist plist_file) s))"

text \<open>The body of \<open>for f in files\<close>.\<close>

definition scan_file :: "env \<Rightarrow> path \<Rightarrow> asm \<Rightarrow> string \<Rightarrow> asm" where
  "scan_file E input_path s f =
     (let plist_file = path_join input_path f in
      if endswith ''.plist'' f then
        (case collect_file_hashes_from_plist E plist_file s of
           (ok, s') \<Rightarrow>
             if ok then zip_write plist_file (path_join ''reports'' f) s'
             else emit (Log (SkippingPlist plist_file)) s')
      else if f = ''metadata.json'' then
        zip_write plist_file (path_join ''reports'' f) s
      else s)"

text \<open>The loop \<open>for input_path in inputs\<close>; the missing path raises \<open>OSError\<close>.\<close>

fun scan_inputs :: "env \<Rightarrow> path list \<Rightarrow> asm \<Rightarrow> (error + unit) \<times> asm" where
  "scan_inputs E [] s = (Inr (), s)"
| "scan_inputs E (i # rest) s =
     (let input_path = abspath E i in
      if \<not> exists E input_path then (Inl (OSError_ENOENT input_path), s)
      else
        let files = (if isfile E input_path then [input_path] else walk_files E input_path)
        in scan_inputs E rest (foldl (scan_file E input_path) s files))"

text \<open>The loop \<open>for f, h in file_to_hash.items()\<close>.\<close>

definition write_content :: "hash list \<Rightarrow> asm \<Rightarrow> path \<times> hash \<Rightarrow> asm" where
  "write_content necessary_hashes s fh =
     (case fh of (f, h) \<Rightarrow>
        if h \<in> set necessary_hashes then zip_write f (path_join ''root'' (lstrip_slash f)) s
        else s)"

definition close_zip :: "env \<Rightarrow> asm \<Rightarrow> asm" where
  "close_zip E s = s\<lparr>zip_content := zip_bytes E (zipf s)\<rparr>"

definition init_asm :: asm where
  "init_asm = \<lparr>hash_to_file = [], file_to_hash = [], zipf = [],
               zip_content = [], calls = []\<rparr>"

text \<open>
  Leaving the \<open>with zipfile.ZipFile(...)\<close> block closes the archive, also when an
  exception leaves it; the compression pass runs after a normal exit only.
\<close>

definition assemble_zip :: "env \<Rightarrow> path list \<Rightarrow> path \<Rightarrow> (error + unit) \<times> asm" where
  "assemble_zip E inputs zip_file =
     (case scan_inputs E inputs init_asm of
        (Inl e, s) \<Rightarrow> (Inl e, close_zip E s)
      | (Inr u, s) \<Rightarrow>
          let s1 = (if length (hash_to_file s) = 0 then emit (Log NoReportToStore) s else s);
              keys = map fst (hash_to_file s1);
              s2 = emit (GetMissingContentHashesCall keys) s1
          in (case getMissingContentHashes E keys of
                None \<Rightarrow> (Inl RpcError, close_zip E s2)
              | Some necessary_hashes \<Rightarrow>
                  let s3 = foldl (write_content necessary_hashes) s2 (file_to_hash s2);
                      s4 = s3\<lparr>zipf := zipf s3 @ [FromString ''content_hashes.json'' (file_to_hash s3)]\<rparr>;
                      s5 = close_zip E s4;
                      s6 = emit (Compress zip_file)
                             (s5\<lparr>zip_content := zlib_compress E (zip_content s5)\<rparr>)
                  in (Inr (), s6)))"

subsection \<open>\<open>main\<close>\<close>

definition MAX_UPLOAD_SIZE :: nat where
  "MAX_UPLOAD_SIZE = 1 * 1024 * 1024 * 1024"

text \<open>
  The parsed command line. \<open>name\<close> and \<open>tag\<close> are \<open>None\<close> when the attribute is absent
  from \<open>args\<close>; \<open>force\<close> is \<open>'force' in args\<close>. \<open>input\<close> is a single string (the
  default) or a list.
\<close>

record args =
  input :: "path + path list"
  name :: "string option"
  tag :: "string option"
  force :: bool
  product_url :: string

definition input_list :: "args \<Rightarrow> path list" where
  "input_list a = (case input a of Inl p \<Rightarrow> [p] | Inr ps \<Rightarrow> ps)"

text \<open>
  How a run ends: \<open>main\<close> returns, \<open>sys.exit(n)\<close> is called, or an exception leaves
  \<open>main\<close>.
\<close>

datatype outcome = Return | SysExit nat | Raise error

record final =
  status :: outcome
  history :: "event list"
  disk_after :: "path \<Rightarrow> node option"

text \<open>
  The name under which the run is stored: the caller's, else the generated one when it
  is truthy; \<open>Inr None\<close> stands for the branch that ends in \<open>sys.exit(2)\<close>. A generated
  name that is truthy but not a string is set on \<open>args\<close> and makes the next statement,
  \<open>LOG.info("..." + args.name + "'")\<close>, raise \<open>TypeError\<close>.
\<close>

definition resolve_name :: "env \<Rightarrow> args \<Rightarrow> error + string option" where
  "resolve_name E a =
     (case name a of
        Some n \<Rightarrow> Inr (Some n)
      | None \<Rightarrow>
          (case get_run_name E (input_list a) of
             Inl e \<Rightarrow> Inl e
           | Inr None \<Rightarrow> Inr None
           | Inr (Some generated) \<Rightarrow>
               if truthy generated then
                 (case generated of JString n \<Rightarrow> Inr (Some n) | JOther b \<Rightarrow> Inl TypeError)
               else Inr None))"

text \<open>The body of the \<open>try\<close> statement.\<close>

definition try_block :: "env \<Rightarrow> args \<Rightarrow> string \<Rightarrow> path \<Rightarrow> outcome \<times> asm" where
  "try_block E a run_name zip_file =
     (case assemble_zip E (input_list a) zip_file of
        (Inl e, s) \<Rightarrow> (Raise e, s)
      | (Inr u, s) \<Rightarrow>
          if length (zip_content s) > MAX_UPLOAD_SIZE then (SysExit 1, emit (Log TooBig) s)
          else
            (case b64encode E (zip_content s) of
               None \<Rightarrow> (Raise EncodeError, s)
             | Some b64zip \<Rightarrow>
                 let s' = emit (MassStoreRunCall run_name (tag a) (context_version E)
                                  b64zip (force a)) s
                 in if massStoreRun E run_name (tag a) (context_version E) b64zip (force a)
                    then (Return, s')
                    else (Raise RpcError, s')))"

text \<open>
  \<open>except Exception\<close> turns an exception of the body into \<open>sys.exit(1)\<close> and lets the
  \<open>SystemExit\<close> of the size check pass; \<open>finally\<close> removes the file in every case.
  Splitting the product URL and setting up the clients are taken to succeed. The
  assembly reads the disk on which \<open>mkstemp\<close> has created the empty file.
\<close>

definition main :: "env \<Rightarrow> args \<Rightarrow> final" where
  "main E a =
     (if \<not> check_zlib E then
        \<lparr>status = Raise ZlibUnavailable, history = [], disk_after = disk E\<rparr>
      else
        (case resolve_name E a of
           Inl e \<Rightarrow> \<lparr>status = Raise e, history = [], disk_after = disk E\<rparr>
         | Inr None \<Rightarrow>
             \<lparr>status = SysExit 2, history = [Log NoSuitableName], disk_after = disk E\<rparr>
         | Inr (Some run_name) \<Rightarrow>
             let pid = product_id E (product_url a);
                 h1 = [GetCurrentProduct (product_url a), CheckPermission pid]
             in if \<not> check_permission E pid then
                  \<lparr>status = SysExit 1, history = h1 @ [Log NotAuthorised], disk_after = disk E\<rparr>
                else
                  let zip_file = mkstemp E;
                      d1 = (disk E)(zip_file \<mapsto> File []);
                      h2 = h1 @ [SetupClient, Mkstemp zip_file];
                      rs = try_block (E\<lparr>disk := d1\<rparr>) a run_name zip_file;
                      d2 = d1(zip_file \<mapsto> File (zip_content (snd rs)));
                      st = (case fst rs of Raise e \<Rightarrow> SysExit 1 | r \<Rightarrow> r);
                      h3 = (case fst rs of
                              Raise e \<Rightarrow> calls (snd rs) @ [Log StorageFailed]
                            | r \<Rightarrow> calls (snd rs))
                  in \<lparr>status = st, history = h2 @ h3 @ [Remove zip_file],
                      disk_after = d2(zip_file := None)\<rparr>))"

section \<open>The loops without their state\<close>

text \<open>
  The functions of this section are read off the loops of the model: they give what a
  loop appends to the archive, to the dictionaries and to the calls, as a function of
  the environment alone. The lemmas prove that the loops compute them. They serve the
  proofs; what the specification asks for is written down separately, in the next
  section.
\<close>

text \<open>A report survives when it parses and every file it mentions is on disk.\<close>

definition survives :: "env \<Rightarrow> path \<Rightarrow> bool" where
  "survives E plist_file =
     (case parse_plist E plist_file of
        None \<Rightarrow> False
      | Some files \<Rightarrow> list_all (isfile E) files)"

text \<open>The members \<open>scan_file\<close> appends for one entry \<open>f\<close>.\<close>

definition scanned_of_file :: "env \<Rightarrow> path \<Rightarrow> string \<Rightarrow> zip_member list" where
  "scanned_of_file E input_path f =
     (if endswith ''.plist'' f then
        (if survives E (path_join input_path f)
         then [FromFile (path_join input_path f) (path_join ''reports'' f)] else [])
      else if f = ''metadata.json''
        then [FromFile (path_join input_path f) (path_join ''reports'' f)]
      else [])"

definition input_files :: "env \<Rightarrow> path \<Rightarrow> string list" where
  "input_files E input_path =
     (if isfile E input_path then [input_path] else walk_files E input_path)"

text \<open>The members \<open>scan_inputs\<close> appends.\<close>

definition scanned_members :: "env \<Rightarrow> path list \<Rightarrow> zip_member list" where
  "scanned_members E inputs =
     concat (map (\<lambda>i. concat (map (scanned_of_file E (abspath E i))
                                  (input_files E (abspath E i)))) inputs)"

text \<open>The content members: one per pair of the dictionary whose hash the server lacks.\<close>

definition content_members :: "hash list \<Rightarrow> (path \<times> hash) list \<Rightarrow> zip_member list" where
  "content_members necessary_hashes fhs =
     concat (map (\<lambda>fh. if snd fh \<in> set necessary_hashes
                         then [FromFile (fst fh) (path_join ''root'' (lstrip_slash (fst fh)))]
                         else []) fhs)"


text \<open>The files one report gets hashed: those listed before the first missing one.\<close>

definition hashed_of_plist :: "env \<Rightarrow> path \<Rightarrow> path list" where
  "hashed_of_plist E plist_file =
     (case parse_plist E plist_file of
        None \<Rightarrow> []
      | Some files \<Rightarrow> takeWhile (isfile E) files)"

definition hashed_of_file :: "env \<Rightarrow> path \<Rightarrow> string \<Rightarrow> path list" where
  "hashed_of_file E input_path f =
     (if endswith ''.plist'' f then hashed_of_plist E (path_join input_path f) else [])"

definition expected_hashed :: "env \<Rightarrow> path list \<Rightarrow> path list" where
  "expected_hashed E inputs =
     concat (map (\<lambda>i. concat (map (hashed_of_file E (abspath E i))
                                  (input_files E (abspath E i)))) inputs)"

text \<open>The files mentioned by the surviving reports of the inputs.\<close>

definition referenced_of_file :: "env \<Rightarrow> path \<Rightarrow> string \<Rightarrow> path list" where
  "referenced_of_file E input_path f =
     (if endswith ''.plist'' f \<and> survives E (path_join input_path f)
      then (case parse_plist E (path_join input_path f) of None \<Rightarrow> [] | Some files \<Rightarrow> files)
      else [])"

definition referenced_files :: "env \<Rightarrow> path list \<Rightarrow> path list" where
  "referenced_files E inputs =
     concat (map (\<lambda>i. concat (map (referenced_of_file E (abspath E i))
                                  (input_files E (abspath E i)))) inputs)"

text \<open>
  The two dictionaries against the sequence of hashed files: a hash maps to the last
  file hashed to it, a file maps to the hash of its bytes, and no key occurs twice.
\<close>

definition maps_inv :: "env \<Rightarrow> asm \<Rightarrow> bool" where
  "maps_inv E s =
     (map_of (hash_to_file s) =
        (\<lambda>h. find (\<lambda>p. sha256_hexdigest E (read_file E p) = h)
                 (rev (hashed_paths (calls s)))) \<and>
      map_of (file_to_hash s) =
        (\<lambda>p. if p \<in> set (hashed_paths (calls s))
             then Some (sha256_hexdigest E (read_file E p)) else None) \<and>
      distinct (map fst (hash_to_file s)) \<and>
      distinct (map fst (file_to_hash s)))"

text \<open>The calls the scan of the inputs can make, and those of the whole assembly.\<close>

fun scan_event :: "event \<Rightarrow> bool" where
  "scan_event (ParsePlist p) = True"
| "scan_event (HashFile p) = True"
| "scan_event (Log ParsingFailed) = True"
| "scan_event (Log (SkippingPlist p)) = True"
| "scan_event e = False"

fun asm_event :: "event \<Rightarrow> bool" where
  "asm_event (GetMissingContentHashesCall hs) = True"
| "asm_event (Compress p) = True"
| "asm_event (Log NoReportToStore) = True"
| "asm_event e = scan_event e"

text \<open>The metadata files \<open>__get_run_name\<close> reads, and the name each one shows.\<close>

definition metadata_docs :: "env \<Rightarrow> path list \<Rightarrow> path list" where
  "metadata_docs E inputs =
     map (\<lambda>i. path_join i ''metadata.json'')
       (filter (\<lambda>i. isdir E i \<and> exists E (path_join i ''metadata.json'')) inputs)"

definition shown_name :: "env \<Rightarrow> path \<Rightarrow> string" where
  "shown_name E metafile =
     (case load_metadata E metafile of
        Name (JString n) \<Rightarrow> n
      | _ \<Rightarrow> ''unnamed result folder'')"

text \<open>A metadata file that loads and declares no name, or a name that is a string.\<close>

definition plain_metadata :: "env \<Rightarrow> path \<Rightarrow> bool" where
  "plain_metadata E metafile =
     (case load_metadata E metafile of
        LoadFails \<Rightarrow> False
      | NoName \<Rightarrow> True
      | Name v \<Rightarrow> (case v of JString n \<Rightarrow> True | JOther b \<Rightarrow> False))"

text \<open>The assembly as \<open>main\<close> runs it: on the disk that holds the new temporary file.\<close>

definition bundle_run :: "env \<Rightarrow> args \<Rightarrow> (error + unit) \<times> asm" where
  "bundle_run E a =
     assemble_zip (E\<lparr>disk := (disk E)(mkstemp E \<mapsto> File [])\<rparr>) (input_list a) (mkstemp E)"

section \<open>The bundle the specification describes\<close>






section \<open>Scenarios\<close>

text \<open>
  One result directory \<open>/r\<close> with a report and a \<open>metadata.json\<close> that declares the name
  \<open>proj\<close>. The report mentions two source files with the same bytes. The server lacks
  every hash, accepts the store and grants the permission. The stand-in for SHA-256
  prefixes the bytes; the stand-in archive has one byte per member.
\<close>

definition base_env :: env where
  "base_env =
     \<lparr>disk = map_of
        [(''/r'', Dir [''A.plist'', ''metadata.json'']),
         (''/r/A.plist'', File ''plist''),
         (''/r/metadata.json'', File ''json''),
         (''/src/a.c'', File ''int x;''),
         (''/src/b.c'', File ''int x;'')],
      abspath = (\<lambda>p. p),
      parse_plist = map_of [(''/r/A.plist'', [''/src/a.c'', ''/src/b.c''])],
      sha256_hexdigest = (\<lambda>c. ''H:'' @ c),
      load_metadata =
        (\<lambda>p. if p = ''/r/metadata.json'' then Name (JString ''proj'') else NoName),
      check_zlib = True,
      product_id = (\<lambda>u. 1),
      check_permission = (\<lambda>i. True),
      getMissingContentHashes = (\<lambda>hs. Some hs),
      massStoreRun = (\<lambda>n t v p f. True),
      mkstemp = ''/tmp/tmp1.zip'',
      zip_bytes = (\<lambda>ms. map (\<lambda>m. CHR ''m'') ms),
      zlib_compress = (\<lambda>b. b),
      b64encode = (\<lambda>b. Some b),
      context_version = ''6.0''\<rparr>"

definition base_args :: args where
  "base_args = \<lparr>input = Inr [''/r''], name = None, tag = None, force = False,
                 product_url = ''localhost:8001/Default''\<rparr>"

text \<open>The same, with the permission denied.\<close>

definition denied_env :: env where
  "denied_env = base_env\<lparr>check_permission := (\<lambda>i. False)\<rparr>"

text \<open>The same, with a compressed bundle of one byte more than the ceiling.\<close>

definition oversize_env :: env where
  "oversize_env = base_env\<lparr>zlib_compress := (\<lambda>b. replicate (Suc MAX_UPLOAD_SIZE) (CHR ''z''))\<rparr>"


text \<open>The same, with the second source file deleted from disk.\<close>

definition missing_file_env :: env where
  "missing_file_env = base_env\<lparr>disk := (disk base_env)(''/src/b.c'' := None)\<rparr>"

text \<open>Two result directories whose \<open>metadata.json\<close> declare no name.\<close>

definition unnamed_env :: env where
  "unnamed_env = base_env
     \<lparr>disk := map_of
        [(''/r1'', Dir [''metadata.json'']),
         (''/r1/metadata.json'', File ''json''),
         (''/r2'', Dir [''metadata.json'']),
         (''/r2/metadata.json'', File ''json'')],
      load_metadata := (\<lambda>p. NoName)\<rparr>"

definition two_dirs_args :: args where
  "two_dirs_args = base_args\<lparr>input := Inr [''/r1'', ''/r2'']\<rparr>"

text \<open>The same two directories, the first one declaring the name \<open>p1\<close>.\<close>

definition one_named_env :: env where
  "one_named_env = unnamed_env
     \<lparr>load_metadata :=
        (\<lambda>p. if p = ''/r1/metadata.json'' then Name (JString ''p1'') else NoName)\<rparr>"

text \<open>The report named as the only input.\<close>

definition plist_file_args :: args where
  "plist_file_args = base_args\<lparr>input := Inr [''/r/A.plist'']\<rparr>"

text \<open>
  The first scenario with a compressed bundle of exactly \<open>MAX_UPLOAD_SIZE\<close> bytes and an
  encoder whose output has the length of the base64 text of its input, four characters
  for every three bytes or part of them.
\<close>

definition full_size_env :: env where
  "full_size_env = base_env
     \<lparr>zlib_compress := (\<lambda>b. replicate MAX_UPLOAD_SIZE (CHR ''z'')),
      b64encode := (\<lambda>b. Some (replicate (4 * ((length b + 2) div 3)) (CHR ''A'')))\<rparr>"

text \<open>The first scenario with a \<open>metadata.json\<close> that is not JSON.\<close>

definition broken_metadata_env :: env where
  "broken_metadata_env = base_env\<lparr>load_metadata := (\<lambda>p. LoadFails)\<rparr>"

section \<open>Lemmas about the model\<close>

lemma hash_files_fst: "fst (hash_files E fs s) = list_all (isfile E) fs"
  by (induction fs arbitrary: s) (simp_all add: Let_def)

lemma collect_fst: "fst (collect_file_hashes_from_plist E p s) = survives E p"
  by (simp add: collect_file_hashes_from_plist_def survives_def hash_files_fst split: option.split)

lemma hash_files_zipf: "zipf (snd (hash_files E fs s)) = zipf s"
  by (induction fs arbitrary: s) (simp_all add: Let_def emit_def)

lemma collect_zipf: "zipf (snd (collect_file_hashes_from_plist E p s)) = zipf s"
  by (simp add: collect_file_hashes_from_plist_def hash_files_zipf emit_def split: option.split)


lemma scan_file_zipf: "zipf (scan_file E ip s f) = zipf s @ scanned_of_file E ip f"
proof (cases "collect_file_hashes_from_plist E (path_join ip f) s")
  case (Pair ok s')
  then have "ok = survives E (path_join ip f)" "zipf s' = zipf s"
    using collect_fst [of E "path_join ip f" s] collect_zipf [of E "path_join ip f" s] by simp_all
  with Pair show ?thesis
    by (simp add: scan_file_def scanned_of_file_def Let_def zip_write_def emit_def)
qed

lemma scan_files_zipf:
  "zipf (foldl (scan_file E ip) s fs) = zipf s @ concat (map (scanned_of_file E ip) fs)"
  by (induction fs arbitrary: s) (simp_all add: scan_file_zipf)


lemma scan_inputs_zipf:
  "scan_inputs E inputs s = (Inr u, s') \<Longrightarrow> zipf s' = zipf s @ scanned_members E inputs"
proof (induction inputs arbitrary: s)
  case Nil
  then show ?case by (simp add: scanned_members_def)
next
  case (Cons i rest)
  then show ?case
    by (auto simp: Let_def scanned_members_def input_files_def scan_files_zipf scan_file_zipf
          split: if_splits)
qed

lemma scan_inputs_ok:
  "(fst (scan_inputs E inputs s) = Inr ()) = (\<forall>i\<in>set inputs. exists E (abspath E i))"
  by (induction inputs arbitrary: s) (simp_all add: Let_def)

lemma hashed_paths_append [simp]: "hashed_paths (xs @ ys) = hashed_paths xs @ hashed_paths ys"
  by (simp add: hashed_paths_def)

lemma hash_queries_append [simp]: "hash_queries (xs @ ys) = hash_queries xs @ hash_queries ys"
  by (simp add: hash_queries_def)

lemma store_payloads_append [simp]:
  "store_payloads (xs @ ys) = store_payloads xs @ store_payloads ys"
  by (simp add: store_payloads_def)

lemma store_names_append [simp]: "store_names (xs @ ys) = store_names xs @ store_names ys"
  by (simp add: store_names_def)

lemma hash_files_hashed:
  "hashed_paths (calls (snd (hash_files E fs s))) =
     hashed_paths (calls s) @ takeWhile (isfile E) fs"
  by (induction fs arbitrary: s) (simp_all add: Let_def emit_def hashed_paths_def)


lemma collect_hashed:
  "hashed_paths (calls (snd (collect_file_hashes_from_plist E p s))) =
     hashed_paths (calls s) @ hashed_of_plist E p"
  by (simp add: collect_file_hashes_from_plist_def hashed_of_plist_def hash_files_hashed emit_def
        split: option.split) (simp add: hashed_paths_def)


lemma maps_inv_init: "maps_inv E init_asm"
  by (simp add: maps_inv_def init_asm_def hashed_paths_def fun_eq_iff)

lemma maps_inv_emit:
  "\<forall>p. e \<noteq> HashFile p \<Longrightarrow> maps_inv E s \<Longrightarrow> maps_inv E (emit e s)"
  by (cases e) (simp_all add: maps_inv_def emit_def hashed_paths_def)

lemma maps_inv_zip_write: "maps_inv E s \<Longrightarrow> maps_inv E (zip_write src arc s)"
  by (simp add: maps_inv_def zip_write_def)

lemma maps_inv_hash_step:
  assumes "maps_inv E s"
  shows "maps_inv E (emit (HashFile f)
            (s\<lparr>hash_to_file := AList.update (sha256_hexdigest E (read_file E f)) f (hash_to_file s),
               file_to_hash := AList.update f (sha256_hexdigest E (read_file E f)) (file_to_hash s)\<rparr>))"
  using assms
  by (auto simp: maps_inv_def emit_def hashed_paths_def update_conv' distinct_update fun_eq_iff)

lemma maps_inv_hash_files: "maps_inv E s \<Longrightarrow> maps_inv E (snd (hash_files E fs s))"
proof (induction fs arbitrary: s)
  case Nil
  then show ?case by simp
next
  case (Cons f fs)
  show ?case
  proof (cases "isfile E f")
    case True
    then show ?thesis
      using Cons.IH [OF maps_inv_hash_step [OF Cons.prems, of f]] by (simp add: Let_def)
  next
    case False
    then show ?thesis using Cons.prems by simp
  qed
qed

lemma maps_inv_collect:
  "maps_inv E s \<Longrightarrow> maps_inv E (snd (collect_file_hashes_from_plist E p s))"
  by (simp add: collect_file_hashes_from_plist_def maps_inv_hash_files maps_inv_emit
        split: option.split)

lemma maps_inv_scan_file: "maps_inv E s \<Longrightarrow> maps_inv E (scan_file E ip s f)"
proof -
  assume inv: "maps_inv E s"
  obtain ok s' where c: "collect_file_hashes_from_plist E (path_join ip f) s = (ok, s')"
    by (cases "collect_file_hashes_from_plist E (path_join ip f) s")
  have "maps_inv E s'" using maps_inv_collect [OF inv, of "path_join ip f"] c by simp
  then show ?thesis using inv c
    by (simp add: scan_file_def Let_def maps_inv_zip_write maps_inv_emit)
qed

lemma maps_inv_scan_files: "maps_inv E s \<Longrightarrow> maps_inv E (foldl (scan_file E ip) s fs)"
  by (induction fs arbitrary: s) (simp_all add: maps_inv_scan_file)

lemma maps_inv_scan_inputs: "maps_inv E s \<Longrightarrow> maps_inv E (snd (scan_inputs E inputs s))"
  by (induction inputs arbitrary: s) (simp_all add: Let_def maps_inv_scan_files)

lemma scan_event_emit:
  "scan_event e \<Longrightarrow> list_all scan_event (calls s) \<Longrightarrow> list_all scan_event (calls (emit e s))"
  by (simp add: emit_def)

lemma scan_event_hash_files:
  "list_all scan_event (calls s) \<Longrightarrow> list_all scan_event (calls (snd (hash_files E fs s)))"
  by (induction fs arbitrary: s) (simp_all add: Let_def emit_def)

lemma scan_event_collect:
  "list_all scan_event (calls s) \<Longrightarrow>
     list_all scan_event (calls (snd (collect_file_hashes_from_plist E p s)))"
  by (simp add: collect_file_hashes_from_plist_def scan_event_hash_files emit_def
        split: option.split)

lemma scan_event_scan_file:
  assumes "list_all scan_event (calls s)"
  shows "list_all scan_event (calls (scan_file E ip s f))"
proof -
  obtain ok s' where c: "collect_file_hashes_from_plist E (path_join ip f) s = (ok, s')"
    by (cases "collect_file_hashes_from_plist E (path_join ip f) s")
  have "list_all scan_event (calls s')"
    using scan_event_collect [OF assms, of E "path_join ip f"] c by simp
  then show ?thesis using assms c
    by (simp add: scan_file_def Let_def zip_write_def emit_def)
qed

lemma scan_event_scan_files:
  "list_all scan_event (calls s) \<Longrightarrow> list_all scan_event (calls (foldl (scan_file E ip) s fs))"
  by (induction fs arbitrary: s) (simp_all add: scan_event_scan_file)

lemma scan_event_scan_inputs:
  "list_all scan_event (calls s) \<Longrightarrow> list_all scan_event (calls (snd (scan_inputs E inputs s)))"
  by (induction inputs arbitrary: s) (simp_all add: Let_def scan_event_scan_files)

lemma scan_event_no_query: "list_all scan_event es \<Longrightarrow> hash_queries es = []"
proof (induction es)
  case Nil
  then show ?case by (simp add: hash_queries_def)
next
  case (Cons e es)
  then show ?case by (cases e) (simp_all add: hash_queries_def)
qed

lemma asm_event_no_store: "list_all asm_event es \<Longrightarrow> store_payloads es = [] \<and> store_names es = []"
proof (induction es)
  case Nil
  then show ?case by (simp add: store_payloads_def store_names_def)
next
  case (Cons e es)
  then show ?case by (cases e) (simp_all add: store_payloads_def store_names_def)
qed

lemma scan_event_asm_event: "list_all scan_event es \<Longrightarrow> list_all asm_event es"
  by (induction es) (auto elim: scan_event.elims)

lemma scan_file_hashed:
  "hashed_paths (calls (scan_file E ip s f)) = hashed_paths (calls s) @ hashed_of_file E ip f"
proof -
  obtain ok s' where c: "collect_file_hashes_from_plist E (path_join ip f) s = (ok, s')"
    by (cases "collect_file_hashes_from_plist E (path_join ip f) s")
  have "hashed_paths (calls s') = hashed_paths (calls s) @ hashed_of_plist E (path_join ip f)"
    using collect_hashed [of E "path_join ip f" s] c by simp
  then show ?thesis using c
    by (simp add: scan_file_def hashed_of_file_def Let_def zip_write_def emit_def)
       (simp add: hashed_paths_def)
qed

lemma scan_files_hashed:
  "hashed_paths (calls (foldl (scan_file E ip) s fs)) =
     hashed_paths (calls s) @ concat (map (hashed_of_file E ip) fs)"
  by (induction fs arbitrary: s) (simp_all add: scan_file_hashed)

lemma scan_inputs_hashed:
  "scan_inputs E inputs s = (Inr u, s') \<Longrightarrow>
     hashed_paths (calls s') = hashed_paths (calls s) @ expected_hashed E inputs"
proof (induction inputs arbitrary: s)
  case Nil
  then show ?case by (simp add: expected_hashed_def)
next
  case (Cons i rest)
  then show ?case
    by (auto simp: Let_def expected_hashed_def input_files_def scan_files_hashed scan_file_hashed
          split: if_splits)
qed

lemma takeWhile_all: "list_all P xs \<Longrightarrow> takeWhile P xs = xs"
  by (induction xs) simp_all

lemma referenced_of_file_subset:
  "set (referenced_of_file E ip f) \<subseteq> set (hashed_of_file E ip f)"
proof (cases "endswith ''.plist'' f")
  case plist: True
  show ?thesis
  proof (cases "survives E (path_join ip f)")
    case True
    then obtain files where p: "parse_plist E (path_join ip f) = Some files"
      and a: "list_all (isfile E) files"
      by (auto simp: survives_def split: option.splits)
    show ?thesis using True plist p
      by (simp add: referenced_of_file_def hashed_of_file_def hashed_of_plist_def
            takeWhile_all [OF a])
  next
    case False
    then show ?thesis by (simp add: referenced_of_file_def)
  qed
next
  case False
  then show ?thesis by (simp add: referenced_of_file_def)
qed

lemma referenced_subset_hashed:
  "set (referenced_files E inputs) \<subseteq> set (expected_hashed E inputs)"
  using referenced_of_file_subset by (fastforce simp: referenced_files_def expected_hashed_def)

lemma write_content_fold:
  "foldl (write_content nec) s fhs = s\<lparr>zipf := zipf s @ content_members nec fhs\<rparr>"
proof (induction fhs arbitrary: s)
  case Nil
  then show ?case by (simp add: content_members_def)
next
  case (Cons fh fhs)
  then show ?case
    by (cases fh) (simp add: write_content_def content_members_def zip_write_def)
qed

lemma metadata_docs_Cons:
  "metadata_docs E (i # rest) =
     (if isdir E i \<and> exists E (path_join i ''metadata.json'')
      then path_join i ''metadata.json'' # metadata_docs E rest
      else metadata_docs E rest)"
  by (simp add: metadata_docs_def)

lemma metadata_skip:
  assumes "\<not> (isdir E i \<and> exists E (path_join i ''metadata.json''))"
  shows "metadata_docs E (i # rest) = metadata_docs E rest"
    and "metadata_names E (i # rest) = metadata_names E rest"
  using assms by (auto simp: metadata_docs_def Let_def)

lemma metadata_names_docs:
  "\<forall>m\<in>set (metadata_docs E inputs). plain_metadata E m \<Longrightarrow>
     metadata_names E inputs = Inr (map (\<lambda>m. JString (shown_name E m)) (metadata_docs E inputs))"
proof (induction inputs)
  case Nil
  then show ?case by (simp add: metadata_docs_def)
next
  case (Cons i rest)
  let ?m = "path_join i ''metadata.json''"
  show ?case
  proof (cases "isdir E i \<and> exists E ?m")
    case False
    show ?thesis using Cons unfolding metadata_skip [OF False] by simp
  next
    case True
    then have d: "metadata_docs E (i # rest) = ?m # metadata_docs E rest"
      by (simp add: metadata_docs_Cons)
    have pm: "plain_metadata E ?m" using Cons.prems by (simp add: d)
    have "\<forall>m\<in>set (metadata_docs E rest). plain_metadata E m"
      using Cons.prems by (simp add: d)
    then have ih: "metadata_names E rest =
                     Inr (map (\<lambda>m. JString (shown_name E m)) (metadata_docs E rest))"
      by (rule Cons.IH)
    show ?thesis
    proof (cases "load_metadata E ?m")
      case LoadFails
      with pm show ?thesis by (simp add: plain_metadata_def)
    next
      case NoName
      with True show ?thesis
        by (simp add: d ih shown_name_def append_name_def Let_def)
    next
      case (Name v)
      show ?thesis
      proof (cases v)
        case (JString n)
        with Name True show ?thesis
          by (simp add: d ih shown_name_def append_name_def Let_def)
      next
        case (JOther b)
        with Name pm show ?thesis by (simp add: plain_metadata_def)
      qed
    qed
  qed
qed

lemma append_name_Inl: "append_name v (Inl e) = Inl e"
  by (simp add: append_name_def)

lemma metadata_names_fail:
  "\<exists>m\<in>set (metadata_docs E inputs). load_metadata E m = LoadFails \<Longrightarrow>
     metadata_names E inputs = Inl MetadataError"
proof (induction inputs)
  case Nil
  then show ?case by (simp add: metadata_docs_def)
next
  case (Cons i rest)
  let ?m = "path_join i ''metadata.json''"
  show ?case
  proof (cases "isdir E i \<and> exists E ?m")
    case False
    show ?thesis using Cons unfolding metadata_skip [OF False] by simp
  next
    case True
    show ?thesis
    proof (cases "load_metadata E ?m = LoadFails")
      case fails: True
      with True show ?thesis by (simp add: Let_def)
    next
      case False
      with Cons.prems True
      have "\<exists>m\<in>set (metadata_docs E rest). load_metadata E m = LoadFails"
        by (auto simp: metadata_docs_Cons)
      then have "metadata_names E rest = Inl MetadataError" by (rule Cons.IH)
      with True show ?thesis
        by (cases "load_metadata E ?m") (simp_all add: Let_def append_name_Inl)
    qed
  qed
qed

lemma join_names_strings: "join_names (map JString ns) = Inr (str_join '', '' ns)"
  by (induction "'', ''" ns rule: str_join.induct) simp_all

lemma assemble_zip_Inr:
  assumes "assemble_zip E inputs z = (Inr u, s)"
  shows "\<exists>s0 nec.
           scan_inputs E inputs init_asm = (Inr (), s0) \<and>
           getMissingContentHashes E (map fst (hash_to_file s0)) = Some nec \<and>
           hash_to_file s = hash_to_file s0 \<and>
           file_to_hash s = file_to_hash s0 \<and>
           zipf s = zipf s0 @ content_members nec (file_to_hash s0) @
                      [FromString ''content_hashes.json'' (file_to_hash s0)] \<and>
           calls s = calls s0 @ (if hash_to_file s0 = [] then [Log NoReportToStore] else []) @
                      [GetMissingContentHashesCall (map fst (hash_to_file s0)), Compress z] \<and>
           zip_content s = zlib_compress E (zip_bytes E (zipf s))"
proof -
  obtain r s0 where sc: "scan_inputs E inputs init_asm = (r, s0)"
    by (cases "scan_inputs E inputs init_asm")
  show ?thesis
  proof (cases r)
    case (Inl e)
    with sc assms show ?thesis by (simp add: assemble_zip_def)
  next
    case (Inr v)
    show ?thesis
    proof (cases "getMissingContentHashes E (map fst (hash_to_file s0))")
      case None
      with sc Inr assms show ?thesis
        by (simp add: assemble_zip_def Let_def emit_def split: if_splits)
    next
      case (Some nec)
      with sc Inr assms show ?thesis
        by (auto simp: assemble_zip_def Let_def emit_def close_zip_def write_content_fold
              split: if_splits)
    qed
  qed
qed

lemma maps_inv_assemble_zip: "maps_inv E (snd (assemble_zip E inputs z))"
proof -
  obtain r s0 where sc: "scan_inputs E inputs init_asm = (r, s0)"
    by (cases "scan_inputs E inputs init_asm")
  have inv: "maps_inv E s0"
    using maps_inv_scan_inputs [OF maps_inv_init, of E inputs] sc by simp
  show ?thesis using inv sc
    by (auto simp: assemble_zip_def Let_def close_zip_def emit_def write_content_fold
          maps_inv_def hashed_paths_def split: sum.splits option.splits)
qed

lemma asm_event_assemble_zip: "list_all asm_event (calls (snd (assemble_zip E inputs z)))"
proof -
  obtain r s0 where sc: "scan_inputs E inputs init_asm = (r, s0)"
    by (cases "scan_inputs E inputs init_asm")
  have "list_all scan_event (calls s0)"
    using scan_event_scan_inputs [of init_asm E inputs] sc by (simp add: init_asm_def)
  then have ev: "list_all asm_event (calls s0)" by (rule scan_event_asm_event)
  show ?thesis using ev sc
    by (auto simp: assemble_zip_def Let_def close_zip_def emit_def write_content_fold
          split: sum.splits option.splits)
qed

lemma assemble_zip_ok:
  "(fst (assemble_zip E inputs z) = Inr ()) =
     ((\<forall>i\<in>set inputs. exists E (abspath E i)) \<and>
      getMissingContentHashes E (map fst (hash_to_file (snd (scan_inputs E inputs init_asm))))
        \<noteq> None)"
proof -
  obtain r s0 where sc: "scan_inputs E inputs init_asm = (r, s0)"
    by (cases "scan_inputs E inputs init_asm")
  have "(r = Inr ()) = (\<forall>i\<in>set inputs. exists E (abspath E i))"
    using scan_inputs_ok [of E inputs init_asm] sc by simp
  then show ?thesis using sc
    by (auto simp: assemble_zip_def Let_def emit_def split: sum.splits option.splits)
qed

lemma main_reached:
  assumes "check_zlib E" and "resolve_name E a = Inr (Some n)"
    and "check_permission E (product_id E (product_url a))"
  shows "main E a =
     (let rs = try_block (E\<lparr>disk := (disk E)(mkstemp E \<mapsto> File [])\<rparr>) a n (mkstemp E) in
      \<lparr>status = (case fst rs of Raise e \<Rightarrow> SysExit 1 | r \<Rightarrow> r),
       history = [GetCurrentProduct (product_url a), CheckPermission (product_id E (product_url a)),
                  SetupClient, Mkstemp (mkstemp E)] @
                 (case fst rs of Raise e \<Rightarrow> calls (snd rs) @ [Log StorageFailed]
                  | r \<Rightarrow> calls (snd rs)) @
                 [Remove (mkstemp E)],
       disk_after = (disk E)(mkstemp E := None)\<rparr>)"
  using assms by (simp add: main_def Let_def)

lemma main_not_reached:
  assumes "\<not> (check_zlib E \<and> (\<exists>n. resolve_name E a = Inr (Some n)) \<and>
              check_permission E (product_id E (product_url a)))"
  shows "list_all (\<lambda>e. \<not> bundling_call e) (history (main E a)) \<and>
         disk_after (main E a) = disk E \<and> status (main E a) \<noteq> Return"
proof (cases "check_zlib E")
  case False
  then show ?thesis by (simp add: main_def)
next
  case zlib: True
  show ?thesis
  proof (cases "resolve_name E a")
    case (Inl e)
    with zlib show ?thesis by (simp add: main_def)
  next
    case (Inr r)
    show ?thesis
    proof (cases r)
      case None
      with zlib Inr show ?thesis by (simp add: main_def)
    next
      case (Some n)
      with zlib Inr assms have "\<not> check_permission E (product_id E (product_url a))" by simp
      with zlib Inr Some show ?thesis by (simp add: main_def Let_def)
    qed
  qed
qed

lemma try_block_run:
  "try_block (E\<lparr>disk := (disk E)(mkstemp E \<mapsto> File [])\<rparr>) a n (mkstemp E) =
     (case bundle_run E a of
        (Inl e, s) \<Rightarrow> (Raise e, s)
      | (Inr u, s) \<Rightarrow>
          if MAX_UPLOAD_SIZE < length (zip_content s) then (SysExit 1, emit (Log TooBig) s)
          else
            (case b64encode E (zip_content s) of
               None \<Rightarrow> (Raise EncodeError, s)
             | Some b \<Rightarrow>
                 (if massStoreRun E n (tag a) (context_version E) b (force a)
                  then Return else Raise RpcError,
                  emit (MassStoreRunCall n (tag a) (context_version E) b (force a)) s)))"
  by (simp add: try_block_def bundle_run_def Let_def split: prod.splits sum.splits option.splits)

lemma not_bundling_no_store:
  "list_all (\<lambda>e. \<not> bundling_call e) es \<Longrightarrow> store_payloads es = [] \<and> store_names es = []"
proof (induction es)
  case Nil
  then show ?case by (simp add: store_payloads_def store_names_def)
next
  case (Cons e es)
  then show ?case by (cases e) (simp_all add: store_payloads_def store_names_def)
qed

lemma not_bundling_no_query:
  "list_all (\<lambda>e. \<not> bundling_call e) es \<Longrightarrow> hash_queries es = []"
proof (induction es)
  case Nil
  then show ?case by (simp add: hash_queries_def)
next
  case (Cons e es)
  then show ?case by (cases e) (simp_all add: hash_queries_def)
qed

lemma asm_event_not_TooBig: "list_all asm_event es \<Longrightarrow> Log TooBig \<notin> set es"
  by (induction es) auto

lemma bundle_run_events: "list_all asm_event (calls (snd (bundle_run E a)))"
  by (simp add: bundle_run_def asm_event_assemble_zip)

lemma main_stores:
  assumes "check_zlib E" and "resolve_name E a = Inr (Some n)"
    and "check_permission E (product_id E (product_url a))"
  shows "store_payloads (history (main E a)) =
           (if fst (bundle_run E a) = Inr () \<and>
               length (zip_content (snd (bundle_run E a))) \<le> MAX_UPLOAD_SIZE
            then (case b64encode E (zip_content (snd (bundle_run E a))) of
                    None \<Rightarrow> [] | Some b \<Rightarrow> [b])
            else [])"
    and "set (store_names (history (main E a))) \<subseteq> {n}"
    and "fst (bundle_run E a) = Inr () \<Longrightarrow>
           (Log TooBig \<in> set (history (main E a))) =
           (MAX_UPLOAD_SIZE < length (zip_content (snd (bundle_run E a))))"
    and "MAX_UPLOAD_SIZE < length (zip_content (snd (bundle_run E a))) \<Longrightarrow>
           status (main E a) \<noteq> Return"
proof -
  obtain r s where b: "bundle_run E a = (r, s)" by (cases "bundle_run E a")
  have ev: "list_all asm_event (calls s)" using bundle_run_events [of E a] b by simp
  note ns = asm_event_no_store [OF ev] asm_event_not_TooBig [OF ev]
  note m = main_reached [OF assms] try_block_run
  show "store_payloads (history (main E a)) =
           (if fst (bundle_run E a) = Inr () \<and>
               length (zip_content (snd (bundle_run E a))) \<le> MAX_UPLOAD_SIZE
            then (case b64encode E (zip_content (snd (bundle_run E a))) of
                    None \<Rightarrow> [] | Some b \<Rightarrow> [b])
            else [])"
    using ns b
    by (cases r) (auto simp: m Let_def emit_def store_payloads_def split: option.splits)
  show "set (store_names (history (main E a))) \<subseteq> {n}"
    using ns b
    by (cases r) (auto simp: m Let_def emit_def store_names_def split: option.splits)
  show "(Log TooBig \<in> set (history (main E a))) =
           (MAX_UPLOAD_SIZE < length (zip_content (snd (bundle_run E a))))"
    if "fst (bundle_run E a) = Inr ()"
    using ns b that
    by (cases r) (auto simp: m Let_def emit_def split: option.splits)
  show "status (main E a) \<noteq> Return"
    if "MAX_UPLOAD_SIZE < length (zip_content (snd (bundle_run E a)))"
    using b that
    by (cases r) (auto simp: m Let_def emit_def split: option.splits)
qed

subsection \<open>The scenarios, evaluated\<close>

lemma base_reach:
  "check_zlib base_env"
  "resolve_name base_env base_args = Inr (Some ''proj'')"
  "check_permission base_env (product_id base_env (product_url base_args))"
  by code_simp+

lemma base_bundle:
  "fst (bundle_run base_env base_args) = Inr ()"
  "zip_content (snd (bundle_run base_env base_args)) = ''mmmmm''"
  by code_simp+

lemma oversize_reach:
  "check_zlib oversize_env"
  "resolve_name oversize_env base_args = Inr (Some ''proj'')"
  "check_permission oversize_env (product_id oversize_env (product_url base_args))"
  by (simp_all add: oversize_env_def base_env_def base_args_def resolve_name_def get_run_name_def
        input_list_def isdir_def exists_def path_join_def startswith_def endswith_def
        append_name_def truthy_def)

lemma oversize_bundle:
  "fst (bundle_run oversize_env base_args) = Inr ()"
  "zip_content (snd (bundle_run oversize_env base_args)) = replicate (Suc MAX_UPLOAD_SIZE) (CHR ''z'')"
proof -
  show ok: "fst (bundle_run oversize_env base_args) = Inr ()"
    by (simp add: bundle_run_def assemble_zip_ok oversize_env_def base_env_def base_args_def
          input_list_def exists_def)
  obtain s where b: "bundle_run oversize_env base_args = (Inr (), s)"
    using ok by (cases "bundle_run oversize_env base_args") simp
  from assemble_zip_Inr [OF b [unfolded bundle_run_def]]
  have "zip_content s = replicate (Suc MAX_UPLOAD_SIZE) (CHR ''z'')"
    by (auto simp: oversize_env_def)
  with b show "zip_content (snd (bundle_run oversize_env base_args)) =
                 replicate (Suc MAX_UPLOAD_SIZE) (CHR ''z'')"
    by simp
qed

lemma assemble_zip_hashed:
  assumes "assemble_zip E inputs z = (Inr u, s)"
  shows "hashed_paths (calls s) = expected_hashed E inputs"
    and "hash_queries (calls s) = [map fst (hash_to_file s)]"
    and "zipf s = scanned_members E inputs @
           content_members (the (getMissingContentHashes E (map fst (hash_to_file s))))
             (file_to_hash s) @
           [FromString ''content_hashes.json'' (file_to_hash s)]"
    and "getMissingContentHashes E (map fst (hash_to_file s)) \<noteq> None"
proof -
  from assemble_zip_Inr [OF assms] obtain s0 nec where
    sc: "scan_inputs E inputs init_asm = (Inr (), s0)"
    and gm: "getMissingContentHashes E (map fst (hash_to_file s0)) = Some nec"
    and h: "hash_to_file s = hash_to_file s0"
    and f: "file_to_hash s = file_to_hash s0"
    and zf: "zipf s = zipf s0 @ content_members nec (file_to_hash s0) @
               [FromString ''content_hashes.json'' (file_to_hash s0)]"
    and c: "calls s = calls s0 @ (if hash_to_file s0 = [] then [Log NoReportToStore] else []) @
              [GetMissingContentHashesCall (map fst (hash_to_file s0)), Compress z]"
    by blast
  have h0: "hashed_paths (calls s0) = expected_hashed E inputs"
    using scan_inputs_hashed [OF sc] by (simp add: init_asm_def hashed_paths_def)
  have "list_all scan_event (calls s0)"
    using scan_event_scan_inputs [of init_asm E inputs] sc by (simp add: init_asm_def)
  then have q0: "hash_queries (calls s0) = []" by (rule scan_event_no_query)
  have z0: "zipf s0 = scanned_members E inputs"
    using scan_inputs_zipf [OF sc] by (simp add: init_asm_def)
  show "hashed_paths (calls s) = expected_hashed E inputs"
    using h0 by (simp add: c) (simp add: hashed_paths_def)
  show "hash_queries (calls s) = [map fst (hash_to_file s)]"
    using q0 by (simp add: c h) (simp add: hash_queries_def)
  show "zipf s = scanned_members E inputs @
           content_members (the (getMissingContentHashes E (map fst (hash_to_file s))))
             (file_to_hash s) @
           [FromString ''content_hashes.json'' (file_to_hash s)]"
    by (simp add: zf z0 h f gm)
  show "getMissingContentHashes E (map fst (hash_to_file s)) \<noteq> None"
    by (simp add: h gm)
qed

lemma distinct_count_list: "distinct xs \<Longrightarrow> x \<in> set xs \<Longrightarrow> count_list xs x = 1"
  by (induction xs) auto


lemma metadata_doc_member:
  assumes "i \<in> set inputs" and "''metadata.json'' \<in> set (walk_files E (abspath E i))"
  shows "FromFile (path_join (abspath E i) ''metadata.json'') ''reports/metadata.json''
           \<in> set (scanned_members E inputs)"
proof -
  have nf: "\<not> isfile E (abspath E i)"
    using assms(2) by (auto simp: walk_files_def isfile_def split: option.splits node.splits)
  have d: "scanned_of_file E (abspath E i) ''metadata.json'' =
             [FromFile (path_join (abspath E i) ''metadata.json'') ''reports/metadata.json'']"
    by (simp add: scanned_of_file_def endswith_def path_join_def startswith_def)
  have "FromFile (path_join (abspath E i) ''metadata.json'') ''reports/metadata.json''
          \<in> set (concat (map (scanned_of_file E (abspath E i)) (input_files E (abspath E i))))"
    using assms(2) nf d by (force simp: input_files_def)
  then show ?thesis using assms(1) by (auto simp: scanned_members_def)
qed

lemma scan_metadata_step:
  "scan_file E ip s ''metadata.json'' =
     zip_write (path_join ip ''metadata.json'') ''reports/metadata.json'' s"
  by (simp add: scan_file_def endswith_def path_join_def startswith_def Let_def)

lemma base_hashing:
  "fst (assemble_zip base_env [''/r''] ''/tmp/tmp1.zip'') = Inr ()"
  "hashed_paths (calls (snd (assemble_zip base_env [''/r''] ''/tmp/tmp1.zip''))) =
     [''/src/a.c'', ''/src/b.c'']"
  "referenced_files base_env [''/r''] = [''/src/a.c'', ''/src/b.c'']"
  "read_file base_env ''/src/a.c'' = ''int x;''"
  "read_file base_env ''/src/b.c'' = ''int x;''"
  "sha256_hexdigest base_env ''int x;'' = ''H:int x;''"
  by code_simp+


lemma main_returns:
  assumes "check_zlib E" and "resolve_name E a = Inr (Some n)"
    and "check_permission E (product_id E (product_url a))"
    and "fst (bundle_run E a) = Inr ()"
    and "length (zip_content (snd (bundle_run E a))) \<le> MAX_UPLOAD_SIZE"
    and "b64encode E (zip_content (snd (bundle_run E a))) = Some b"
    and "massStoreRun E n (tag a) (context_version E) b (force a)"
  shows "status (main E a) = Return"
proof -
  obtain r st where br: "bundle_run E a = (r, st)" by (cases "bundle_run E a")
  show ?thesis using assms(4-7) br
    by (simp add: main_reached [OF assms(1-3)] try_block_run Let_def)
qed

lemma main_store_names:
  assumes "resolve_name E a = Inr (Some n)"
  shows "set (store_names (history (main E a))) \<subseteq> {n}"
proof (cases "check_zlib E \<and> check_permission E (product_id E (product_url a))")
  case True
  then show ?thesis using main_stores(2) [OF _ assms] by simp
next
  case False
  then have "\<not> (check_zlib E \<and> (\<exists>n. resolve_name E a = Inr (Some n)) \<and>
                check_permission E (product_id E (product_url a)))" by blast
  from main_not_reached [OF this] not_bundling_no_store [of "history (main E a)"]
  show ?thesis by simp
qed

lemma join_names_shown:
  "join_names (JString (f a) # map (\<lambda>m. JString (f m)) ds) =
     Inr (str_join '', '' (f a # map f ds))"
  using join_names_strings [of "f a # map f ds"] by (simp add: comp_def)

lemma get_run_name_docs:
  assumes "\<forall>m\<in>set (metadata_docs E inputs). plain_metadata E m"
  shows "get_run_name E inputs =
     (let names = map (shown_name E) (metadata_docs E inputs) in
      if length names = 1 \<and> hd names \<noteq> ''unnamed result folder''
      then Inr (Some (JString (hd names)))
      else if length names > 1
      then Inr (Some (JString (''multiple projects: '' @ str_join '', '' names)))
      else Inr None)"
proof (cases "metadata_docs E inputs")
  case Nil
  then show ?thesis
    using metadata_names_docs [OF assms] by (simp add: get_run_name_def)
next
  case (Cons a ds)
  then show ?thesis
    using metadata_names_docs [OF assms]
    by (simp add: get_run_name_def join_names_shown Let_def)
qed

lemma unnamed_run:
  "name two_dirs_args = None"
  "metadata_docs unnamed_env (input_list two_dirs_args) =
     [''/r1/metadata.json'', ''/r2/metadata.json'']"
  "load_metadata unnamed_env ''/r1/metadata.json'' = NoName"
  "load_metadata unnamed_env ''/r2/metadata.json'' = NoName"
  "resolve_name unnamed_env two_dirs_args =
     Inr (Some ''multiple projects: unnamed result folder, unnamed result folder'')"
  "check_zlib unnamed_env"
  "check_permission unnamed_env (product_id unnamed_env (product_url two_dirs_args))"
  "fst (bundle_run unnamed_env two_dirs_args) = Inr ()"
  "zip_content (snd (bundle_run unnamed_env two_dirs_args)) = ''mmm''"
  by code_simp+

lemma one_named_run:
  "metadata_docs one_named_env (input_list two_dirs_args) =
     [''/r1/metadata.json'', ''/r2/metadata.json'']"
  "shown_name one_named_env ''/r1/metadata.json'' = ''p1''"
  "shown_name one_named_env ''/r2/metadata.json'' = ''unnamed result folder''"
  "plain_metadata one_named_env ''/r1/metadata.json''"
  "plain_metadata one_named_env ''/r2/metadata.json''"
  by code_simp+

lemma base_metadata:
  "name base_args = None"
  "metadata_docs base_env (input_list base_args) = [''/r/metadata.json'']"
  "load_metadata base_env ''/r/metadata.json'' = Name (JString ''proj'')"
  "name plist_file_args = None"
  "metadata_docs base_env (input_list plist_file_args) = []"
  by code_simp+

lemma broken_metadata_run:
  "name base_args = None"
  "check_zlib broken_metadata_env"
  "metadata_docs broken_metadata_env (input_list base_args) = [''/r/metadata.json'']"
  "load_metadata broken_metadata_env ''/r/metadata.json'' = LoadFails"
  "resolve_name broken_metadata_env base_args = Inl MetadataError"
  "status (main broken_metadata_env base_args) = Raise MetadataError"
  by code_simp+













lemma full_size_reach:
  "check_zlib full_size_env"
  "resolve_name full_size_env base_args = Inr (Some ''proj'')"
  "check_permission full_size_env (product_id full_size_env (product_url base_args))"
  by (simp_all add: full_size_env_def base_env_def base_args_def resolve_name_def get_run_name_def
        input_list_def isdir_def exists_def path_join_def startswith_def endswith_def
        append_name_def truthy_def)

lemma full_size_bundle:
  "fst (bundle_run full_size_env base_args) = Inr ()"
  "zip_content (snd (bundle_run full_size_env base_args)) = replicate MAX_UPLOAD_SIZE (CHR ''z'')"
proof -
  show ok: "fst (bundle_run full_size_env base_args) = Inr ()"
    by (simp add: bundle_run_def assemble_zip_ok full_size_env_def base_env_def base_args_def
          input_list_def exists_def)
  obtain s where b: "bundle_run full_size_env base_args = (Inr (), s)"
    using ok by (cases "bundle_run full_size_env base_args") simp
  from assemble_zip_Inr [OF b [unfolded bundle_run_def]]
  have "zip_content s = replicate MAX_UPLOAD_SIZE (CHR ''z'')"
    by (auto simp: full_size_env_def)
  with b show "zip_content (snd (bundle_run full_size_env base_args)) =
                 replicate MAX_UPLOAD_SIZE (CHR ''z'')"
    by simp
qed

lemma full_size_fields:
  "b64encode full_size_env b = Some (replicate (4 * ((length b + 2) div 3)) (CHR ''A''))"
  "massStoreRun full_size_env n t v p f"
  by (simp_all add: full_size_env_def base_env_def)

section \<open>The claims\<close>

text \<open>
  C3. When the permission check denies the store permission, \<open>main\<close> makes no call of
  the bundling work: no temporary file is created, no report is parsed, no file is
  hashed, and neither \<open>getMissingContentHashes\<close> nor \<open>massStoreRun\<close> is called. The disk
  is left as it was, and the run that reaches the check ends with \<open>sys.exit(1)\<close> after
  the two calls of the check alone.
\<close>

theorem C3_denial_precedes_bundling:
  assumes "\<not> check_permission E (product_id E (product_url a))"
  shows "list_all (\<lambda>e. \<not> bundling_call e) (history (main E a)) \<and>
         hash_queries (history (main E a)) = [] \<and>
         store_payloads (history (main E a)) = [] \<and>
         disk_after (main E a) = disk E \<and>
         status (main E a) \<noteq> Return \<and>
         (check_zlib E \<and> (\<exists>n. resolve_name E a = Inr (Some n)) \<longrightarrow>
            status (main E a) = SysExit 1 \<and>
            history (main E a) =
              [GetCurrentProduct (product_url a), CheckPermission (product_id E (product_url a)),
               Log NotAuthorised])"
proof -
  have nr: "\<not> (check_zlib E \<and> (\<exists>n. resolve_name E a = Inr (Some n)) \<and>
                check_permission E (product_id E (product_url a)))"
    using assms by simp
  note n = main_not_reached [OF nr]
  have q: "hash_queries (history (main E a)) = []"
    using n by (simp add: not_bundling_no_query)
  have e: "check_zlib E \<and> (\<exists>n. resolve_name E a = Inr (Some n)) \<longrightarrow>
            status (main E a) = SysExit 1 \<and>
            history (main E a) =
              [GetCurrentProduct (product_url a), CheckPermission (product_id E (product_url a)),
               Log NotAuthorised]"
    using assms by (auto simp: main_def Let_def)
  show ?thesis using n q e not_bundling_no_store [of "history (main E a)"] by simp
qed

theorem C3_denial_precedes_bundling_witness:
  "\<not> check_permission denied_env (product_id denied_env (product_url base_args)) \<and>
   list_all (\<lambda>e. \<not> bundling_call e) (history (main denied_env base_args)) \<and>
   disk_after (main denied_env base_args) = disk denied_env \<and>
   status (main denied_env base_args) = SysExit 1 \<and>
   history (main denied_env base_args) =
     [GetCurrentProduct ''localhost:8001/Default'', CheckPermission 1, Log NotAuthorised]"
proof -
  have h: "\<not> check_permission denied_env (product_id denied_env (product_url base_args))"
    by (simp add: denied_env_def)
  have z: "check_zlib denied_env" by (simp add: denied_env_def base_env_def)
  have r: "\<exists>n. resolve_name denied_env base_args = Inr (Some n)"
  proof
    show "resolve_name denied_env base_args = Inr (Some ''proj'')" by code_simp
  qed
  have p: "\<And>u. product_id denied_env u = 1"
    "product_url base_args = ''localhost:8001/Default''"
    by (simp_all add: denied_env_def base_env_def base_args_def)
  show ?thesis using h z r C3_denial_precedes_bundling [OF h] by (simp add: p)
qed

text \<open>
  C4, as the code has it. When the compressed bundle is larger than \<open>MAX_UPLOAD_SIZE\<close>,
  \<open>massStoreRun\<close> is not called and the run does not return normally. Hence every
  payload passed to \<open>massStoreRun\<close> is the encoding of a compressed bundle of at most
  \<open>MAX_UPLOAD_SIZE\<close> bytes. The bound is on the file that \<open>os.stat\<close> measures, before the
  base64 encoding; the encoded payload is a third longer and is not bounded by the
  ceiling.
\<close>

theorem C4_oversize_aborts_before_store:
  "(MAX_UPLOAD_SIZE < length (zip_content (snd (bundle_run E a))) \<longrightarrow>
      store_payloads (history (main E a)) = [] \<and> status (main E a) \<noteq> Return) \<and>
   (\<forall>p\<in>set (store_payloads (history (main E a))).
      b64encode E (zip_content (snd (bundle_run E a))) = Some p \<and>
      length (zip_content (snd (bundle_run E a))) \<le> MAX_UPLOAD_SIZE)"
proof (cases "check_zlib E \<and> (\<exists>n. resolve_name E a = Inr (Some n)) \<and>
              check_permission E (product_id E (product_url a))")
  case False
  from main_not_reached [OF False] not_bundling_no_store [of "history (main E a)"]
  show ?thesis by simp
next
  case True
  then obtain n where n: "resolve_name E a = Inr (Some n)" by auto
  from True have z: "check_zlib E"
    and p: "check_permission E (product_id E (product_url a))" by simp_all
  note s = main_stores [OF z n p]
  have big: "store_payloads (history (main E a)) = [] \<and> status (main E a) \<noteq> Return"
    if "MAX_UPLOAD_SIZE < length (zip_content (snd (bundle_run E a)))"
    using that s(4) by (simp add: s(1))
  have sent: "b64encode E (zip_content (snd (bundle_run E a))) = Some q \<and>
              length (zip_content (snd (bundle_run E a))) \<le> MAX_UPLOAD_SIZE"
    if q: "q \<in> set (store_payloads (history (main E a)))" for q
  proof -
    have ne: "store_payloads (history (main E a)) \<noteq> []" using q by auto
    have c: "fst (bundle_run E a) = Inr () \<and>
             length (zip_content (snd (bundle_run E a))) \<le> MAX_UPLOAD_SIZE"
      using ne by (rule contrapos_np) (auto simp: s(1))
    then have sp: "store_payloads (history (main E a)) =
                     (case b64encode E (zip_content (snd (bundle_run E a))) of
                        None \<Rightarrow> [] | Some b \<Rightarrow> [b])"
      by (simp add: s(1))
    show ?thesis using q c
      by (cases "b64encode E (zip_content (snd (bundle_run E a)))") (simp_all add: sp)
  qed
  show ?thesis using big sent by blast
qed

theorem C4_oversize_aborts_before_store_witness:
  "(MAX_UPLOAD_SIZE < length (zip_content (snd (bundle_run oversize_env base_args))) \<and>
    store_payloads (history (main oversize_env base_args)) = [] \<and>
    status (main oversize_env base_args) \<noteq> Return) \<and>
   (''mmmmm'' \<in> set (store_payloads (history (main base_env base_args))) \<and>
    b64encode base_env (zip_content (snd (bundle_run base_env base_args))) = Some ''mmmmm'' \<and>
    length (zip_content (snd (bundle_run base_env base_args))) \<le> MAX_UPLOAD_SIZE)"
proof -
  have big: "MAX_UPLOAD_SIZE < length (zip_content (snd (bundle_run oversize_env base_args)))"
    by (simp add: oversize_bundle)
  have enc: "\<And>b. b64encode base_env b = Some b" by (simp add: base_env_def)
  have sent: "''mmmmm'' \<in> set (store_payloads (history (main base_env base_args)))"
    by (simp add: main_stores(1) [OF base_reach] base_bundle MAX_UPLOAD_SIZE_def enc)
  from C4_oversize_aborts_before_store [of oversize_env base_args] big
  have 1: "store_payloads (history (main oversize_env base_args)) = [] \<and>
           status (main oversize_env base_args) \<noteq> Return" by blast
  from C4_oversize_aborts_before_store [of base_env base_args] sent
  have 2: "b64encode base_env (zip_content (snd (bundle_run base_env base_args))) = Some ''mmmmm'' \<and>
           length (zip_content (snd (bundle_run base_env base_args))) \<le> MAX_UPLOAD_SIZE" by blast
  show ?thesis using big sent 1 2 by blast
qed

theorem C4_payload_exceeds_ceiling_counterexample:
  "length (zip_content (snd (bundle_run full_size_env base_args))) = MAX_UPLOAD_SIZE \<and>
   status (main full_size_env base_args) = Return \<and>
   store_payloads (history (main full_size_env base_args)) =
     [replicate (4 * ((MAX_UPLOAD_SIZE + 2) div 3)) (CHR ''A'')] \<and>
   length (replicate (4 * ((MAX_UPLOAD_SIZE + 2) div 3)) (CHR ''A'')) = 1431655768 \<and>
   MAX_UPLOAD_SIZE < length (replicate (4 * ((MAX_UPLOAD_SIZE + 2) div 3)) (CHR ''A''))"
proof -
  have len: "length (zip_content (snd (bundle_run full_size_env base_args))) = MAX_UPLOAD_SIZE"
    by (simp add: full_size_bundle)
  have enc: "b64encode full_size_env (zip_content (snd (bundle_run full_size_env base_args))) =
               Some (replicate (4 * ((MAX_UPLOAD_SIZE + 2) div 3)) (CHR ''A''))"
    by (simp add: full_size_fields full_size_bundle)
  have ret: "status (main full_size_env base_args) = Return"
    by (rule main_returns [OF full_size_reach full_size_bundle(1) _ enc])
       (simp_all add: len full_size_fields)
  have sent: "store_payloads (history (main full_size_env base_args)) =
                [replicate (4 * ((MAX_UPLOAD_SIZE + 2) div 3)) (CHR ''A'')]"
    by (simp add: main_stores(1) [OF full_size_reach] full_size_bundle(1) len enc)
  have n: "length (replicate (4 * ((MAX_UPLOAD_SIZE + 2) div 3)) (CHR ''A'')) = 1431655768"
    by (simp add: MAX_UPLOAD_SIZE_def)
  have big: "MAX_UPLOAD_SIZE < length (replicate (4 * ((MAX_UPLOAD_SIZE + 2) div 3)) (CHR ''A''))"
    by (simp add: MAX_UPLOAD_SIZE_def)
  show ?thesis using len ret sent n big by blast
qed

text \<open>
  C5. When the run creates the temporary file, the file is gone from the disk when
  \<open>main\<close> ends, and its removal is the last thing the run does, however the \<open>try\<close>
  statement is left: by the store call returning, by the \<open>sys.exit(1)\<close> of the size check,
  or by an exception raised by the assembly, the encoding or the store call.
\<close>

theorem C5_temp_file_removed:
  assumes "Mkstemp (mkstemp E) \<in> set (history (main E a))"
  shows "disk_after (main E a) (mkstemp E) = None \<and>
         last (history (main E a)) = Remove (mkstemp E) \<and>
         (status (main E a) = Return \<or> status (main E a) = SysExit 1)"
proof (cases "check_zlib E \<and> (\<exists>n. resolve_name E a = Inr (Some n)) \<and>
              check_permission E (product_id E (product_url a))")
  case False
  from main_not_reached [OF False]
  have "\<forall>e\<in>set (history (main E a)). \<not> bundling_call e" by (simp add: list_all_iff)
  with assms have "\<not> bundling_call (Mkstemp (mkstemp E))" by blast
  then show ?thesis by simp
next
  case True
  then obtain n where n: "resolve_name E a = Inr (Some n)" by auto
  from True have z: "check_zlib E"
    and p: "check_permission E (product_id E (product_url a))" by simp_all
  note m = main_reached [OF z n p] try_block_run
  obtain r s where b: "bundle_run E a = (r, s)" by (cases "bundle_run E a")
  show ?thesis using b
    by (cases r) (auto simp: m Let_def split: option.splits)
qed

theorem C5_temp_file_removed_witness:
  "Mkstemp (mkstemp oversize_env) \<in> set (history (main oversize_env base_args)) \<and>
   disk_after (main oversize_env base_args) (mkstemp oversize_env) = None \<and>
   last (history (main oversize_env base_args)) = Remove (mkstemp oversize_env) \<and>
   status (main oversize_env base_args) = SysExit 1"
proof -
  have h: "Mkstemp (mkstemp oversize_env) \<in> set (history (main oversize_env base_args))"
    by (simp add: main_reached [OF oversize_reach] Let_def)
  have big: "MAX_UPLOAD_SIZE < length (zip_content (snd (bundle_run oversize_env base_args)))"
    by (simp add: oversize_bundle)
  have nr: "status (main oversize_env base_args) \<noteq> Return"
    using main_stores(4) [OF oversize_reach big] .
  show ?thesis using h nr C5_temp_file_removed [OF h] by simp
qed

text \<open>
  C10. \<open>MAX_UPLOAD_SIZE\<close> is \<open>2 ^ 30\<close> and the comparison is strict. In a run that gets as
  far as the size check, the error of the check is logged exactly when the compressed
  bundle has more than \<open>2 ^ 30\<close> bytes; with \<open>2 ^ 30\<close> bytes or fewer the run goes on to
  encode the bundle and calls \<open>massStoreRun\<close> with it.
\<close>

theorem C10_size_check_is_strict:
  assumes "check_zlib E" and "resolve_name E a = Inr (Some n)"
    and "check_permission E (product_id E (product_url a))"
    and "fst (bundle_run E a) = Inr ()"
  shows "MAX_UPLOAD_SIZE = 2 ^ 30 \<and>
         (Log TooBig \<in> set (history (main E a))) =
           (2 ^ 30 < length (zip_content (snd (bundle_run E a)))) \<and>
         (length (zip_content (snd (bundle_run E a))) \<le> 2 ^ 30 \<longrightarrow>
            b64encode E (zip_content (snd (bundle_run E a))) = Some b \<longrightarrow>
            store_payloads (history (main E a)) = [b] \<and> store_names (history (main E a)) = [n])"
proof -
  have mx: "MAX_UPLOAD_SIZE = 2 ^ 30" by (simp add: MAX_UPLOAD_SIZE_def)
  note s = main_stores [OF assms(1-3)]
  have t: "(Log TooBig \<in> set (history (main E a))) =
           (2 ^ 30 < length (zip_content (snd (bundle_run E a))))"
    using s(3) [OF assms(4)] by (simp only: mx)
  have u: "store_payloads (history (main E a)) = [b] \<and> store_names (history (main E a)) = [n]"
    if le: "length (zip_content (snd (bundle_run E a))) \<le> 2 ^ 30"
      and enc: "b64encode E (zip_content (snd (bundle_run E a))) = Some b"
  proof -
    have le': "length (zip_content (snd (bundle_run E a))) \<le> MAX_UPLOAD_SIZE"
      using le by (simp only: mx)
    obtain r st where br: "bundle_run E a = (r, st)" by (cases "bundle_run E a")
    have ev: "list_all asm_event (calls st)" using bundle_run_events [of E a] br by simp
    note ns = asm_event_no_store [OF ev]
    show ?thesis using assms(4) le' enc br ns
      by (simp add: main_reached [OF assms(1-3)] try_block_run Let_def emit_def
            store_payloads_def store_names_def)
  qed
  show ?thesis using mx t u by blast
qed

theorem C10_size_check_is_strict_witness:
  "check_zlib base_env \<and> resolve_name base_env base_args = Inr (Some ''proj'') \<and>
   check_permission base_env (product_id base_env (product_url base_args)) \<and>
   fst (bundle_run base_env base_args) = Inr () \<and>
   length (zip_content (snd (bundle_run base_env base_args))) \<le> 2 ^ 30 \<and>
   b64encode base_env (zip_content (snd (bundle_run base_env base_args))) = Some ''mmmmm'' \<and>
   Log TooBig \<notin> set (history (main base_env base_args)) \<and>
   store_payloads (history (main base_env base_args)) = [''mmmmm''] \<and>
   store_names (history (main base_env base_args)) = [''proj'']"
proof -
  have e: "\<And>b. b64encode base_env b = Some b" by (simp add: base_env_def)
  have enc: "b64encode base_env (zip_content (snd (bundle_run base_env base_args))) = Some ''mmmmm''"
    by (simp add: base_bundle e)
  have le: "length (zip_content (snd (bundle_run base_env base_args))) \<le> 2 ^ 30"
    by (simp add: base_bundle)
  show ?thesis
    using C10_size_check_is_strict [OF base_reach base_bundle(1), of "''mmmmm''"] enc le base_reach
      base_bundle(1)
    by simp
qed

text \<open>
  C1, as the code has it. After the assembly, whether it completed or not, each hash
  maps to the last file hashed to it (a later assignment replaces the path), and each
  hashed file maps to the hash of its bytes. When the assembly completes, every file
  mentioned by a surviving report has its entry in the path-to-hash dictionary.
\<close>

theorem C1_last_writer_wins:
  "map_of (hash_to_file (snd (assemble_zip E inputs z))) h =
     find (\<lambda>p. sha256_hexdigest E (read_file E p) = h)
       (rev (hashed_paths (calls (snd (assemble_zip E inputs z))))) \<and>
   (\<forall>p\<in>set (hashed_paths (calls (snd (assemble_zip E inputs z)))).
      map_of (file_to_hash (snd (assemble_zip E inputs z))) p =
        Some (sha256_hexdigest E (read_file E p))) \<and>
   (fst (assemble_zip E inputs z) = Inr () \<longrightarrow>
      (\<forall>p\<in>set (referenced_files E inputs).
         map_of (file_to_hash (snd (assemble_zip E inputs z))) p =
           Some (sha256_hexdigest E (read_file E p))))"
proof -
  let ?s = "snd (assemble_zip E inputs z)"
  have inv: "maps_inv E ?s" by (rule maps_inv_assemble_zip)
  have a: "map_of (hash_to_file ?s) h =
             find (\<lambda>p. sha256_hexdigest E (read_file E p) = h) (rev (hashed_paths (calls ?s)))"
    using inv by (simp add: maps_inv_def)
  have b: "map_of (file_to_hash ?s) p = Some (sha256_hexdigest E (read_file E p))"
    if "p \<in> set (hashed_paths (calls ?s))" for p
    using inv that by (simp add: maps_inv_def)
  have c: "map_of (file_to_hash ?s) p = Some (sha256_hexdigest E (read_file E p))"
    if ok: "fst (assemble_zip E inputs z) = Inr ()" and p: "p \<in> set (referenced_files E inputs)"
    for p
  proof -
    have eq: "assemble_zip E inputs z = (Inr (), ?s)" using ok by (simp add: prod_eq_iff)
    have "p \<in> set (hashed_paths (calls ?s))"
      using assemble_zip_hashed(1) [OF eq] referenced_subset_hashed [of E inputs] p by auto
    then show ?thesis by (rule b)
  qed
  show ?thesis using a b c by blast
qed

theorem C1_last_writer_wins_witness:
  "''/src/b.c'' \<in> set (hashed_paths (calls (snd (assemble_zip base_env [''/r''] ''/tmp/tmp1.zip'')))) \<and>
   fst (assemble_zip base_env [''/r''] ''/tmp/tmp1.zip'') = Inr () \<and>
   ''/src/a.c'' \<in> set (referenced_files base_env [''/r'']) \<and>
   map_of (hash_to_file (snd (assemble_zip base_env [''/r''] ''/tmp/tmp1.zip''))) ''H:int x;'' =
     Some ''/src/b.c'' \<and>
   map_of (file_to_hash (snd (assemble_zip base_env [''/r''] ''/tmp/tmp1.zip''))) ''/src/b.c'' =
     Some ''H:int x;'' \<and>
   map_of (file_to_hash (snd (assemble_zip base_env [''/r''] ''/tmp/tmp1.zip''))) ''/src/a.c'' =
     Some ''H:int x;''"
  using C1_last_writer_wins [of base_env "[''/r'']" "''/tmp/tmp1.zip''" "''H:int x;''"]
  by (simp add: base_hashing)

theorem C1_first_writer_counterexample:
  "hashed_paths (calls (snd (assemble_zip base_env [''/r''] ''/tmp/tmp1.zip''))) =
     [''/src/a.c'', ''/src/b.c''] \<and>
   sha256_hexdigest base_env (read_file base_env ''/src/a.c'') = ''H:int x;'' \<and>
   sha256_hexdigest base_env (read_file base_env ''/src/b.c'') = ''H:int x;'' \<and>
   map_of (hash_to_file (snd (assemble_zip base_env [''/r''] ''/tmp/tmp1.zip''))) ''H:int x;'' =
     Some ''/src/b.c'' \<and>
   map_of (hash_to_file (snd (assemble_zip base_env [''/r''] ''/tmp/tmp1.zip''))) ''H:int x;'' \<noteq>
     Some ''/src/a.c''"
  by code_simp

text \<open>
  C2, at a failing input. The report \<open>/r/A.plist\<close> mentions \<open>/src/a.c\<close>, which is on disk,
  and then \<open>/src/b.c\<close>, which is not. The report is dropped, yet \<open>/src/a.c\<close>, hashed before
  the loop met the missing file, stays in both dictionaries, and so gets a content
  member and a line of the manifest.
\<close>

theorem C2_dropped_report_leaves_entries:
  "parse_plist missing_file_env ''/r/A.plist'' = Some [''/src/a.c'', ''/src/b.c''] \<and>
   isfile missing_file_env ''/src/a.c'' \<and>
   \<not> isfile missing_file_env ''/src/b.c'' \<and>
   fst (assemble_zip missing_file_env [''/r''] ''/tmp/tmp1.zip'') = Inr () \<and>
   file_to_hash (snd (assemble_zip missing_file_env [''/r''] ''/tmp/tmp1.zip'')) =
     [(''/src/a.c'', ''H:int x;'')] \<and>
   hash_to_file (snd (assemble_zip missing_file_env [''/r''] ''/tmp/tmp1.zip'')) =
     [(''H:int x;'', ''/src/a.c'')] \<and>
   zipf (snd (assemble_zip missing_file_env [''/r''] ''/tmp/tmp1.zip'')) =
     [FromFile ''/r/metadata.json'' ''reports/metadata.json'',
      FromFile ''/src/a.c'' ''root/src/a.c'',
      FromString ''content_hashes.json'' [(''/src/a.c'', ''H:int x;'')]]"
  by code_simp

text \<open>
  C7. Two different files that surviving reports mention and that hold the same bytes
  have the same hash in the path-to-hash dictionary. Exactly one
  \<open>getMissingContentHashes\<close> call is made, its argument is the list of keys of the
  hash-to-path dictionary, and the common hash occurs once in that list.
\<close>

theorem C7_identical_bytes_one_query:
  assumes "assemble_zip E inputs z = (Inr (), s)"
    and "p \<in> set (referenced_files E inputs)"
    and "q \<in> set (referenced_files E inputs)"
    and "p \<noteq> q"
    and "read_file E p = read_file E q"
  shows "map_of (file_to_hash s) p = Some (sha256_hexdigest E (read_file E p)) \<and>
         map_of (file_to_hash s) q = Some (sha256_hexdigest E (read_file E p)) \<and>
         hash_queries (calls s) = [map fst (hash_to_file s)] \<and>
         count_list (map fst (hash_to_file s)) (sha256_hexdigest E (read_file E p)) = 1"
proof -
  let ?h = "sha256_hexdigest E (read_file E p)"
  have s: "s = snd (assemble_zip E inputs z)" using assms(1) by simp
  have inv: "maps_inv E s" unfolding s by (rule maps_inv_assemble_zip)
  have sub: "set (referenced_files E inputs) \<subseteq> set (hashed_paths (calls s))"
    using assemble_zip_hashed(1) [OF assms(1)] referenced_subset_hashed [of E inputs] by simp
  have hp: "p \<in> set (hashed_paths (calls s))" and hq: "q \<in> set (hashed_paths (calls s))"
    using sub assms(2,3) by auto
  have fp: "map_of (file_to_hash s) p = Some ?h" using inv hp by (simp add: maps_inv_def)
  have fq: "map_of (file_to_hash s) q = Some ?h"
    using inv hq assms(5) by (simp add: maps_inv_def)
  have "find (\<lambda>x. sha256_hexdigest E (read_file E x) = ?h) (rev (hashed_paths (calls s))) \<noteq> None"
    using hp by (auto simp: find_None_iff)
  then have "map_of (hash_to_file s) ?h \<noteq> None" using inv by (simp add: maps_inv_def)
  then have key: "?h \<in> set (map fst (hash_to_file s))"
    by (simp add: map_of_eq_None_iff)
  have d: "distinct (map fst (hash_to_file s))" using inv by (simp add: maps_inv_def)
  show ?thesis
    using fp fq assemble_zip_hashed(2) [OF assms(1)] distinct_count_list [OF d key] by simp
qed

theorem C7_identical_bytes_one_query_witness:
  "assemble_zip base_env [''/r''] ''/tmp/tmp1.zip'' =
     (Inr (), snd (assemble_zip base_env [''/r''] ''/tmp/tmp1.zip'')) \<and>
   ''/src/a.c'' \<in> set (referenced_files base_env [''/r'']) \<and>
   ''/src/b.c'' \<in> set (referenced_files base_env [''/r'']) \<and>
   ''/src/a.c'' \<noteq> ''/src/b.c'' \<and>
   read_file base_env ''/src/a.c'' = read_file base_env ''/src/b.c'' \<and>
   map_of (file_to_hash (snd (assemble_zip base_env [''/r''] ''/tmp/tmp1.zip''))) ''/src/a.c'' =
     Some ''H:int x;'' \<and>
   map_of (file_to_hash (snd (assemble_zip base_env [''/r''] ''/tmp/tmp1.zip''))) ''/src/b.c'' =
     Some ''H:int x;'' \<and>
   hash_queries (calls (snd (assemble_zip base_env [''/r''] ''/tmp/tmp1.zip''))) =
     [map fst (hash_to_file (snd (assemble_zip base_env [''/r''] ''/tmp/tmp1.zip'')))] \<and>
   count_list (map fst (hash_to_file (snd (assemble_zip base_env [''/r''] ''/tmp/tmp1.zip''))))
     ''H:int x;'' = 1"
proof -
  have h: "assemble_zip base_env [''/r''] ''/tmp/tmp1.zip'' =
             (Inr (), snd (assemble_zip base_env [''/r''] ''/tmp/tmp1.zip''))"
    using base_hashing(1) by (simp add: prod_eq_iff)
  have p: "''/src/a.c'' \<in> set (referenced_files base_env [''/r''])"
    and q: "''/src/b.c'' \<in> set (referenced_files base_env [''/r''])"
    by (simp_all add: base_hashing)
  have ne: "''/src/a.c'' \<noteq> ''/src/b.c''" by simp
  have same: "read_file base_env ''/src/a.c'' = read_file base_env ''/src/b.c''"
    by (simp add: base_hashing)
  show ?thesis
    using h p q same C7_identical_bytes_one_query [OF h p q ne same]
    by (simp add: base_hashing)
qed

text \<open>
  C9, as the code has it. A \<open>metadata.json\<close> among the files of an input directory is
  written to the archive as \<open>reports/metadata.json\<close> whenever the assembly completes,
  whatever happens to the reports. The step that writes it does nothing else: the
  dictionaries and the calls stay as they were, so the file is neither parsed nor
  hashed.
\<close>

theorem C9_directory_metadata_included:
  assumes "assemble_zip E inputs z = (Inr (), s)"
    and "i \<in> set inputs"
    and "''metadata.json'' \<in> set (walk_files E (abspath E i))"
  shows "FromFile (path_join (abspath E i) ''metadata.json'') ''reports/metadata.json''
           \<in> set (zipf s) \<and>
         scan_file E (abspath E i) t ''metadata.json'' =
           t\<lparr>zipf := zipf t @
                [FromFile (path_join (abspath E i) ''metadata.json'') ''reports/metadata.json'']\<rparr>"
  using metadata_doc_member [OF assms(2,3)] assemble_zip_hashed(3) [OF assms(1)]
  by (simp add: scan_metadata_step zip_write_def)

theorem C9_directory_metadata_included_witness:
  "assemble_zip missing_file_env [''/r''] ''/tmp/tmp1.zip'' =
     (Inr (), snd (assemble_zip missing_file_env [''/r''] ''/tmp/tmp1.zip'')) \<and>
   ''/r'' \<in> set [''/r''] \<and>
   ''metadata.json'' \<in> set (walk_files missing_file_env (abspath missing_file_env ''/r'')) \<and>
   FromFile ''/r/metadata.json'' ''reports/metadata.json''
     \<in> set (zipf (snd (assemble_zip missing_file_env [''/r''] ''/tmp/tmp1.zip'')))"
proof -
  have ok: "fst (assemble_zip missing_file_env [''/r''] ''/tmp/tmp1.zip'') = Inr ()"
    by code_simp
  have h: "assemble_zip missing_file_env [''/r''] ''/tmp/tmp1.zip'' =
             (Inr (), snd (assemble_zip missing_file_env [''/r''] ''/tmp/tmp1.zip''))"
    using ok by (simp add: prod_eq_iff)
  have i: "''/r'' \<in> set [''/r'']" by simp
  have w: "''metadata.json'' \<in> set (walk_files missing_file_env (abspath missing_file_env ''/r''))"
    by code_simp
  have j: "path_join (abspath missing_file_env ''/r'') ''metadata.json'' = ''/r/metadata.json''"
    by code_simp
  show ?thesis
    using h w C9_directory_metadata_included [OF h i w] by (simp add: j)
qed

theorem C9_metadata_file_input_counterexample:
  "isfile base_env (abspath base_env ''/r/metadata.json'') \<and>
   fst (assemble_zip base_env [''/r/metadata.json''] ''/tmp/tmp1.zip'') = Inr () \<and>
   zipf (snd (assemble_zip base_env [''/r/metadata.json''] ''/tmp/tmp1.zip'')) =
     [FromString ''content_hashes.json'' []]"
  by code_simp

text \<open>
  C8, as the code has it, for metadata files that load and whose declared names are
  strings. With no name from the caller: when the inputs hold one metadata file and it
  declares a name (not the empty string, and not the placeholder
  \<open>unnamed result folder\<close>), that name is the run name; when they hold several, the run
  name is \<open>multiple projects: \<close> followed by the names of all of them separated by commas,
  a file that declares none showing as \<open>unnamed result folder\<close>; when they hold none, or
  one that declares no name, the run logs the error and ends with \<open>sys.exit(2)\<close>. The
  resolved name is the only name a store call can carry.
\<close>

theorem C8_run_name_derivation:
  assumes "name a = None"
    and "\<forall>m\<in>set (metadata_docs E (input_list a)). plain_metadata E m"
  shows "(metadata_docs E (input_list a) = [m] \<and> load_metadata E m = Name (JString n) \<and>
            n \<noteq> [] \<and> n \<noteq> ''unnamed result folder'' \<longrightarrow>
            resolve_name E a = Inr (Some n) \<and>
            set (store_names (history (main E a))) \<subseteq> {n}) \<and>
         (1 < length (metadata_docs E (input_list a)) \<longrightarrow>
            resolve_name E a =
              Inr (Some (''multiple projects: '' @
                         str_join '', '' (map (shown_name E) (metadata_docs E (input_list a)))))) \<and>
         (metadata_docs E (input_list a) = [] \<or>
            (metadata_docs E (input_list a) = [m] \<and> load_metadata E m = NoName) \<longrightarrow>
            resolve_name E a = Inr None \<and>
            (check_zlib E \<longrightarrow>
               status (main E a) = SysExit 2 \<and> history (main E a) = [Log NoSuitableName]))"
proof -
  note g = get_run_name_docs [OF assms(2)]
  have one: "resolve_name E a = Inr (Some n) \<and> set (store_names (history (main E a))) \<subseteq> {n}"
    if "metadata_docs E (input_list a) = [m]" "load_metadata E m = Name (JString n)" "n \<noteq> []"
      "n \<noteq> ''unnamed result folder''"
  proof -
    have "resolve_name E a = Inr (Some n)"
      using assms(1) that by (simp add: resolve_name_def g shown_name_def truthy_def)
    then show ?thesis using main_store_names by simp
  qed
  have several: "resolve_name E a =
              Inr (Some (''multiple projects: '' @
                         str_join '', '' (map (shown_name E) (metadata_docs E (input_list a)))))"
    if "1 < length (metadata_docs E (input_list a))"
    using assms(1) that by (simp add: resolve_name_def g truthy_def)
  have none: "resolve_name E a = Inr None \<and>
            (check_zlib E \<longrightarrow>
               status (main E a) = SysExit 2 \<and> history (main E a) = [Log NoSuitableName])"
    if "metadata_docs E (input_list a) = [] \<or>
            (metadata_docs E (input_list a) = [m] \<and> load_metadata E m = NoName)"
  proof -
    have "resolve_name E a = Inr None"
      using assms(1) that by (auto simp: resolve_name_def g shown_name_def)
    then show ?thesis by (simp add: main_def)
  qed
  show ?thesis using one several none by blast
qed

theorem C8_run_name_derivation_witness:
  "(name base_args = None \<and>
    metadata_docs base_env (input_list base_args) = [''/r/metadata.json''] \<and>
    plain_metadata base_env ''/r/metadata.json'' \<and>
    load_metadata base_env ''/r/metadata.json'' = Name (JString ''proj'') \<and>
    resolve_name base_env base_args = Inr (Some ''proj'') \<and>
    set (store_names (history (main base_env base_args))) \<subseteq> {''proj''}) \<and>
   (1 < length (metadata_docs one_named_env (input_list two_dirs_args)) \<and>
    resolve_name one_named_env two_dirs_args =
      Inr (Some ''multiple projects: p1, unnamed result folder'')) \<and>
   (name plist_file_args = None \<and>
    metadata_docs base_env (input_list plist_file_args) = [] \<and>
    check_zlib base_env \<and>
    resolve_name base_env plist_file_args = Inr None \<and>
    status (main base_env plist_file_args) = SysExit 2)"
proof -
  have pm: "plain_metadata base_env ''/r/metadata.json''" by code_simp
  have p1: "\<forall>m\<in>set (metadata_docs base_env (input_list base_args)). plain_metadata base_env m"
    by (simp add: base_metadata pm)
  have p2: "\<forall>m\<in>set (metadata_docs one_named_env (input_list two_dirs_args)).
              plain_metadata one_named_env m"
    by (simp add: one_named_run)
  have p3: "\<forall>m\<in>set (metadata_docs base_env (input_list plist_file_args)).
              plain_metadata base_env m"
    by (simp add: base_metadata)
  have 1: "resolve_name base_env base_args = Inr (Some ''proj'') \<and>
           set (store_names (history (main base_env base_args))) \<subseteq> {''proj''}"
    using C8_run_name_derivation [OF base_metadata(1) p1, of "''/r/metadata.json''" "''proj''"]
    by (simp add: base_metadata)
  have 2: "resolve_name one_named_env two_dirs_args =
             Inr (Some ''multiple projects: p1, unnamed result folder'')"
    using C8_run_name_derivation [OF unnamed_run(1) p2]
    by (simp add: one_named_run)
  have 3: "resolve_name base_env plist_file_args = Inr None \<and>
           status (main base_env plist_file_args) = SysExit 2"
    using C8_run_name_derivation [OF base_metadata(4) p3] base_reach(1)
    by (simp add: base_metadata)
  show ?thesis using 1 2 3 pm by (simp add: base_metadata one_named_run base_reach(1))
qed

theorem C8_unnamed_folders_counterexample:
  "name two_dirs_args = None \<and>
   metadata_docs unnamed_env (input_list two_dirs_args) =
     [''/r1/metadata.json'', ''/r2/metadata.json''] \<and>
   load_metadata unnamed_env ''/r1/metadata.json'' = NoName \<and>
   load_metadata unnamed_env ''/r2/metadata.json'' = NoName \<and>
   resolve_name unnamed_env two_dirs_args =
     Inr (Some ''multiple projects: unnamed result folder, unnamed result folder'') \<and>
   status (main unnamed_env two_dirs_args) = Return \<and>
   status (main unnamed_env two_dirs_args) \<noteq> SysExit 2"
proof -
  have e: "\<And>b. b64encode unnamed_env b = Some b"
    and m: "\<And>n t v p f. massStoreRun unnamed_env n t v p f"
    by (simp_all add: unnamed_env_def base_env_def)
  have "status (main unnamed_env two_dirs_args) = Return"
    by (rule main_returns [OF unnamed_run(6) unnamed_run(5) unnamed_run(7) unnamed_run(8)])
       (simp_all add: unnamed_run e m MAX_UPLOAD_SIZE_def)
  then show ?thesis by (simp add: unnamed_run)
qed





end
